theory Spec2Isabelle
  imports Main "HOL-Library.Char_ord" "HOL-Library.List_Lexorder"
begin

section \<open>JavaScript values, objects and the heap\<close>

text \<open>
  The library manipulates ordinary JavaScript values. Numbers are modelled as the
  integers (printed in decimal, as JavaScript prints integers below \<open>10^21\<close>) together
  with the four special doubles the equality engine distinguishes: negative zero,
  \<open>NaN\<close> and the two infinities. Objects live in a heap and are named by their
  address, so that identity (\<open>===\<close> on objects) and cyclic structures can be expressed.
\<close>

datatype jsnum = NInt int | NNegZero | NNaN | NPosInf | NNegInf

datatype jsval = VUndefined | VNull | VBool bool | VNum jsnum | VStr string | VRef nat

text \<open>What a host method call on an object produces: the object itself (the default
  \<open>Object.prototype.valueOf\<close>), another value, or a thrown exception (also when
  the method is missing, as on \<open>Object.create(null)\<close>).\<close>

datatype hostret = Self | Gives jsval | Raises

text \<open>
  An object carries what the engine can observe of it:
  \<^item> \<open>cls\<close>: its class name, so that \<open>Object.prototype.toString\<close> yields
    \<open>[object cls]\<close>; an object is callable (\<open>typeof\<close> is \<open>function\<close>) iff the
    class is \<open>Function\<close>;
  \<^item> \<open>props\<close>: its own enumerable properties, in \<open>for..in\<close> / \<open>Object.keys\<close> order;
  \<^item> \<open>hidden\<close>: its own properties that are not enumerable (\<open>length\<close> of an array),
    which \<open>hasOwnProperty\<close>, \<open>in\<close> and property reads see but enumeration does not;
  \<^item> \<open>inherited\<close>: the properties it inherits through its prototype chain, which
    \<open>in\<close> and property reads see;
  \<^item> \<open>plainProto\<close>: the outcome of \<open>hasValidPlainObjectPrototype(obj) &&
    hasOwnEnumeratedProperties(obj)\<close>, which inspect the prototype chain;
  \<^item> \<open>valueOfRes\<close>, \<open>toStringRes\<close>: what \<open>obj.valueOf()\<close> and
    \<open>obj.toString()\<close> produce (\<open>None\<close>: the call throws);
  \<^item> \<open>setItems\<close>, \<open>mapItems\<close>: the members of a \<open>Set\<close> and the entries of
    a \<open>Map\<close>, in the order \<open>forEach\<close> visits them.
\<close>

record jsobj =
  cls :: string
  props :: "(string \<times> jsval) list"
  hidden :: "(string \<times> jsval) list"
  inherited :: "(string \<times> jsval) list"
  plainProto :: bool
  valueOfRes :: hostret
  toStringRes :: "string option"
  setItems :: "jsval list"
  mapItems :: "(jsval \<times> jsval) list"

type_synonym heap = "jsobj list"

text \<open>An address outside the heap names no object of the program; it is read as an
  object of no class with no properties, which no branch of the library recurses into.\<close>

definition noObject :: jsobj where
  "noObject = \<lparr> cls = [], props = [], hidden = [], inherited = [], plainProto = False,
     valueOfRes = Raises, toStringRes = None, setItems = [], mapItems = [] \<rparr>"

definition deref :: "heap \<Rightarrow> nat \<Rightarrow> jsobj" where
  "deref h r = (if r < length h then h ! r else noObject)"

text \<open>
  \<open>setToArray\<close>, \<open>mapToArray\<close> and \<open>collectArguments\<close> allocate fresh arrays
  that nothing else refers to. An operand of the engine is therefore a value of the
  caller, a fresh array of values, or a fresh array of fresh arrays (the
  \<open>[key, val]\<close> pairs of \<open>mapToArray\<close>). A fresh array is described by its
  elements; it is identical to nothing but itself, and the engine never meets the
  same fresh array twice.
\<close>

datatype operand = Val jsval | Arr "jsval list" | ArrArr "jsval list list"

text \<open>An outcome of a call: a result, a thrown exception, or the recursion budget
  of the model used up (which the termination theorem shows never happens when the
  budget is \<open>fuelBound\<close>).\<close>

datatype 'a outcome = Returns 'a | Throws | Exhausted

fun obind :: "'a outcome \<Rightarrow> ('a \<Rightarrow> 'b outcome) \<Rightarrow> 'b outcome" where
  "obind (Returns x) f = f x"
| "obind Throws f = Throws"
| "obind Exhausted f = Exhausted"

subsection \<open>Primitive operations of the language\<close>

definition isZero :: "jsnum \<Rightarrow> bool" where
  "isZero n = (n = NInt 0 \<or> n = NNegZero)"

text \<open>\<open>===\<close> on numbers: \<open>NaN\<close> equals nothing, the two zeros equal each other.\<close>

definition numEq :: "jsnum \<Rightarrow> jsnum \<Rightarrow> bool" where
  "numEq a b = (a \<noteq> NNaN \<and> b \<noteq> NNaN \<and> (a = b \<or> (isZero a \<and> isZero b)))"

fun strictEqV :: "jsval \<Rightarrow> jsval \<Rightarrow> bool" where
  "strictEqV (VNum a) (VNum b) = numEq a b"
| "strictEqV a b = (a = b)"

fun strictEq :: "operand \<Rightarrow> operand \<Rightarrow> bool" where
  "strictEq (Val a) (Val b) = strictEqV a b"
| "strictEq a b = False"

text \<open>\<open>1 / a\<close> for \<open>a\<close> one of the two zeros, the only place \<open>isEqual\<close> divides.\<close>

fun oneOverZero :: "operand \<Rightarrow> jsnum" where
  "oneOverZero (Val (VNum NNegZero)) = NNegInf"
| "oneOverZero a = NPosInf"

definition digitChar :: "nat \<Rightarrow> char" where
  "digitChar d = ''0123456789'' ! d"

fun natToString :: "nat \<Rightarrow> string" where
  "natToString n = (if n < 10 then [digitChar n] else natToString (n div 10) @ [digitChar (n mod 10)])"

definition numToString :: "jsnum \<Rightarrow> string" where
  "numToString n = (case n of
      NInt i \<Rightarrow> (if i < 0 then CHR ''-'' # natToString (nat (- i)) else natToString (nat i))
    | NNegZero \<Rightarrow> ''0''
    | NNaN \<Rightarrow> ''NaN''
    | NPosInf \<Rightarrow> ''Infinity''
    | NNegInf \<Rightarrow> ''-Infinity'')"

text \<open>\<open>String(v)\<close> for a primitive; an object is printed by its own \<open>toString\<close>.\<close>

definition primToString :: "jsval \<Rightarrow> string" where
  "primToString v = (case v of
      VUndefined \<Rightarrow> ''undefined''
    | VNull \<Rightarrow> ''null''
    | VBool b \<Rightarrow> (if b then ''true'' else ''false'')
    | VNum n \<Rightarrow> numToString n
    | VStr s \<Rightarrow> s
    | VRef r \<Rightarrow> [])"

definition typeofV :: "heap \<Rightarrow> jsval \<Rightarrow> string" where
  "typeofV h v = (case v of
      VUndefined \<Rightarrow> ''undefined''
    | VNull \<Rightarrow> ''object''
    | VBool b \<Rightarrow> ''boolean''
    | VNum n \<Rightarrow> ''number''
    | VStr s \<Rightarrow> ''string''
    | VRef r \<Rightarrow> (if cls (deref h r) = ''Function'' then ''function'' else ''object''))"

fun typeof :: "heap \<Rightarrow> operand \<Rightarrow> string" where
  "typeof h (Val v) = typeofV h v"
| "typeof h a = ''object''"

definition classOf :: "heap \<Rightarrow> operand \<Rightarrow> string" where
  "classOf h a = (case a of
      Val VUndefined \<Rightarrow> ''Undefined''
    | Val VNull \<Rightarrow> ''Null''
    | Val (VBool b) \<Rightarrow> ''Boolean''
    | Val (VNum n) \<Rightarrow> ''Number''
    | Val (VStr s) \<Rightarrow> ''String''
    | Val (VRef r) \<Rightarrow> cls (deref h r)
    | Arr vs \<Rightarrow> ''Array''
    | ArrArr vss \<Rightarrow> ''Array'')"

definition classToString :: "heap \<Rightarrow> operand \<Rightarrow> string" where
  "classToString h obj = ''[object '' @ classOf h obj @ '']''"

definition isClass :: "string \<Rightarrow> string \<Rightarrow> bool" where
  "isClass className str = (str = ''[object '' @ className @ '']'')"

text \<open>\<open>isObjectType(obj)\<close> is \<open>!!obj && typeof obj === 'object'\<close>; \<open>null\<close> is falsy.\<close>

definition isObjectType :: "heap \<Rightarrow> operand \<Rightarrow> bool" where
  "isObjectType h obj = (obj \<noteq> Val VNull \<and> typeof h obj = ''object'')"

definition isPrimitive :: "heap \<Rightarrow> operand \<Rightarrow> bool" where
  "isPrimitive h obj = (obj = Val VUndefined \<or> obj = Val VNull \<or> typeof h obj = ''string''
     \<or> typeof h obj = ''number'' \<or> typeof h obj = ''boolean'')"

text \<open>\<open>isRealNaN(obj)\<close> is \<open>obj != null && obj !== obj\<close>, which (as the source
  notes) is only true of \<open>NaN\<close>.\<close>

definition isRealNaN :: "operand \<Rightarrow> bool" where
  "isRealNaN obj = (obj = Val (VNum NNaN))"

subsection \<open>Property access\<close>

definition indexKeys :: "nat \<Rightarrow> string list" where
  "indexKeys n = map natToString [0..<n]"

text \<open>The own enumerable properties of an operand, in enumeration order
  (\<open>forEachProperty\<close> skips inherited ones with \<open>hasOwn\<close>). The library only
  enumerates objects.\<close>

definition ownProps :: "heap \<Rightarrow> operand \<Rightarrow> (string \<times> operand) list" where
  "ownProps h obj = (case obj of
      Val (VRef r) \<Rightarrow> map (\<lambda>(k, v). (k, Val v)) (props (deref h r))
    | Val v \<Rightarrow> []
    | Arr vs \<Rightarrow> zip (indexKeys (length vs)) (map Val vs)
    | ArrArr vss \<Rightarrow> zip (indexKeys (length vss)) (map Arr vss))"

definition getKeys :: "heap \<Rightarrow> operand \<Rightarrow> string list" where
  "getKeys h obj = map fst (ownProps h obj)"

text \<open>Every property a read or \<open>in\<close> can see: the own ones first, then the
  inherited ones. A fresh array has its elements and its \<open>length\<close>;
  the members it inherits from \<open>Array.prototype\<close> are not modelled, the engine only asks
  a fresh array for the index keys of another fresh array.\<close>

definition allProps :: "heap \<Rightarrow> operand \<Rightarrow> (string \<times> operand) list" where
  "allProps h obj = (case obj of
      Val (VRef r) \<Rightarrow> map (\<lambda>(k, v). (k, Val v))
        (props (deref h r) @ hidden (deref h r) @ inherited (deref h r))
    | Val v \<Rightarrow> []
    | Arr vs \<Rightarrow> ownProps h obj @ [(''length'', Val (VNum (NInt (int (length vs)))))]
    | ArrArr vss \<Rightarrow> ownProps h obj @ [(''length'', Val (VNum (NInt (int (length vss)))))])"

text \<open>\<open>key in obj\<close>; on a primitive the operator throws.\<close>

definition hasIn :: "heap \<Rightarrow> operand \<Rightarrow> string \<Rightarrow> bool outcome" where
  "hasIn h obj key = (if isPrimitive h obj then Throws
     else Returns (key \<in> set (map fst (allProps h obj))))"

text \<open>\<open>obj[key]\<close>; reading a property of \<open>undefined\<close> or \<open>null\<close> throws.\<close>

definition getProp :: "heap \<Rightarrow> operand \<Rightarrow> string \<Rightarrow> operand outcome" where
  "getProp h obj key = (if obj = Val VUndefined \<or> obj = Val VNull then Throws
     else (case map_of (allProps h obj) key of
         Some v \<Rightarrow> Returns v
       | None \<Rightarrow> Returns (Val VUndefined)))"

text \<open>\<open>obj.valueOf()\<close> and \<open>obj.toString()\<close>. An array prints as its elements joined by
  commas, \<open>undefined\<close> and \<open>null\<close> printing as the empty string.\<close>

definition valueOf :: "heap \<Rightarrow> operand \<Rightarrow> operand outcome" where
  "valueOf h obj = (case obj of
      Val VUndefined \<Rightarrow> Throws
    | Val VNull \<Rightarrow> Throws
    | Val (VRef r) \<Rightarrow> (case valueOfRes (deref h r) of
          Self \<Rightarrow> Returns obj
        | Gives v \<Rightarrow> Returns (Val v)
        | Raises \<Rightarrow> Throws)
    | _ \<Rightarrow> Returns obj)"

definition toStringV :: "heap \<Rightarrow> jsval \<Rightarrow> string outcome" where
  "toStringV h v = (case v of
      VUndefined \<Rightarrow> Throws
    | VNull \<Rightarrow> Throws
    | VRef r \<Rightarrow> (case toStringRes (deref h r) of Some s \<Rightarrow> Returns s | None \<Rightarrow> Throws)
    | _ \<Rightarrow> Returns (primToString v))"

fun commaJoin :: "string list \<Rightarrow> string" where
  "commaJoin [] = []"
| "commaJoin [s] = s"
| "commaJoin (s # t # ss) = s @ '','' @ commaJoin (t # ss)"

fun collect :: "'a outcome list \<Rightarrow> 'a list outcome" where
  "collect [] = Returns []"
| "collect (x # xs) = obind x (\<lambda>y. obind (collect xs) (\<lambda>ys. Returns (y # ys)))"

definition elemToString :: "heap \<Rightarrow> jsval \<Rightarrow> string outcome" where
  "elemToString h v = (if v = VUndefined \<or> v = VNull then Returns [] else toStringV h v)"

definition joinArray :: "heap \<Rightarrow> jsval list \<Rightarrow> string outcome" where
  "joinArray h vs = obind (collect (map (elemToString h) vs)) (\<lambda>ss. Returns (commaJoin ss))"

definition toString :: "heap \<Rightarrow> operand \<Rightarrow> string outcome" where
  "toString h obj = (case obj of
      Val v \<Rightarrow> toStringV h v
    | Arr vs \<Rightarrow> joinArray h vs
    | ArrArr vss \<Rightarrow> obind (collect (map (joinArray h) vss)) (\<lambda>ss. Returns (commaJoin ss)))"

subsection \<open>Class checks (\<open>buildClassChecks\<close>)\<close>

definition knownTypes :: "string list" where
  "knownTypes = map (\<lambda>className. ''[object '' @ className @ '']'')
     [''Arguments'', ''Boolean'', ''Number'', ''String'', ''Date'', ''RegExp'', ''Array'',
      ''Int8Array'', ''Uint8Array'', ''Uint8ClampedArray'', ''Int16Array'', ''Uint16Array'',
      ''Int32Array'', ''Uint32Array'', ''Float32Array'', ''Float64Array'']"

definition isKnownType :: "string \<Rightarrow> bool" where
  "isKnownType className = (className \<in> set knownTypes)"

definition isPlainObject :: "heap \<Rightarrow> operand \<Rightarrow> string \<Rightarrow> bool" where
  "isPlainObject h obj className = (isObjectType h obj \<and> isClass ''Object'' className \<and>
     (case obj of Val (VRef r) \<Rightarrow> plainProto (deref h r) | _ \<Rightarrow> False))"

definition isSerializable :: "heap \<Rightarrow> operand \<Rightarrow> string \<Rightarrow> bool" where
  "isSerializable h obj className = (isKnownType className \<or> isPlainObject h obj className)"

definition isSet :: "operand \<Rightarrow> string \<Rightarrow> bool" where
  "isSet obj str = isClass ''Set'' str"

definition isMap :: "operand \<Rightarrow> string \<Rightarrow> bool" where
  "isMap obj str = isClass ''Map'' str"

definition isError :: "operand \<Rightarrow> string \<Rightarrow> bool" where
  "isError obj str = isClass ''Error'' str"

subsection \<open>ES6 helpers\<close>

definition setSize :: "heap \<Rightarrow> operand \<Rightarrow> nat" where
  "setSize h obj = (case obj of Val (VRef r) \<Rightarrow> length (setItems (deref h r)) | _ \<Rightarrow> 0)"

definition mapSize :: "heap \<Rightarrow> operand \<Rightarrow> nat" where
  "mapSize h obj = (case obj of Val (VRef r) \<Rightarrow> length (mapItems (deref h r)) | _ \<Rightarrow> 0)"

definition setToArray :: "heap \<Rightarrow> operand \<Rightarrow> operand" where
  "setToArray h obj = (case obj of Val (VRef r) \<Rightarrow> Arr (setItems (deref h r)) | _ \<Rightarrow> Arr [])"

definition mapToArray :: "heap \<Rightarrow> operand \<Rightarrow> operand" where
  "mapToArray h obj = (case obj of
      Val (VRef r) \<Rightarrow> ArrArr (map (\<lambda>(key, val). [key, val]) (mapItems (deref h r)))
    | _ \<Rightarrow> ArrArr [])"

section \<open>The equality and serialization engine\<close>

subsection \<open>\<open>iterateWithCyclicCheck\<close>\<close>

text \<open>
  The traversal stack is one array shared by a whole traversal; \<open>next\<close> pushes the
  child, runs the callback and pops. In the model the stack is passed down, so the pop
  is the return to the caller's stack. The callbacks of the source update variables of
  their closure; here they transform an accumulator. The value the callback returns is
  dropped by \<open>next\<close>, so the iteration never stops early.
\<close>

definition onStack :: "operand list \<Rightarrow> operand \<Rightarrow> bool" where
  "onStack stack val = (length stack > 1 \<and> list_ex (\<lambda>s. strictEq s val) stack)"

definition iterNext ::
  "(string \<Rightarrow> operand \<Rightarrow> bool \<Rightarrow> operand list \<Rightarrow> 'acc \<Rightarrow> 'acc outcome) \<Rightarrow>
   operand list \<Rightarrow> operand \<Rightarrow> string \<Rightarrow> 'acc \<Rightarrow> 'acc outcome" where
  "iterNext fn stack val key acc = fn key val (onStack stack val) (stack @ [val]) acc"

fun iterProps ::
  "(string \<Rightarrow> operand \<Rightarrow> bool \<Rightarrow> operand list \<Rightarrow> 'acc \<Rightarrow> 'acc outcome) \<Rightarrow>
   operand list \<Rightarrow> (string \<times> operand) list \<Rightarrow> 'acc \<Rightarrow> 'acc outcome" where
  "iterProps fn stack [] acc = Returns acc"
| "iterProps fn stack ((key, val) # kvs) acc =
     obind (iterNext fn stack val key acc) (iterProps fn stack kvs)"

text \<open>With \<open>sortedKeys\<close> the keys are \<open>getKeys(obj).sort()\<close> and each value is read
  back as \<open>obj[key]\<close>; otherwise \<open>forEachProperty\<close> enumerates the own properties.\<close>

definition sortedProps :: "heap \<Rightarrow> operand \<Rightarrow> (string \<times> operand) list" where
  "sortedProps h obj = map (\<lambda>key. (key, (case map_of (allProps h obj) key of Some v \<Rightarrow> v | None \<Rightarrow> Val VUndefined)))
     (sort (getKeys h obj))"

definition iterateWithCyclicCheck ::
  "heap \<Rightarrow> operand \<Rightarrow> bool \<Rightarrow> operand list \<Rightarrow>
   (string \<Rightarrow> operand \<Rightarrow> bool \<Rightarrow> operand list \<Rightarrow> 'acc \<Rightarrow> 'acc outcome) \<Rightarrow> 'acc \<Rightarrow> 'acc outcome" where
  "iterateWithCyclicCheck h obj sortedKeys stack fn acc =
     (if sortedKeys then iterProps fn stack (sortedProps h obj) acc
      else iterProps fn stack (ownProps h obj) acc)"

subsection \<open>\<open>isEqual\<close> and \<open>objectIsEqual\<close>\<close>

definition stringsEqual :: "heap \<Rightarrow> operand \<Rightarrow> operand \<Rightarrow> bool outcome" where
  "stringsEqual h a b =
     obind (valueOf h a) (\<lambda>av. obind (toString h av) (\<lambda>sa.
     obind (valueOf h b) (\<lambda>bv. obind (toString h bv) (\<lambda>sb. Returns (sa = sb)))))"

text \<open>The callback of \<open>objectIsEqual\<close>; the accumulator is \<open>(propsEqual, count)\<close>.\<close>

definition equalProp ::
  "(operand \<Rightarrow> operand \<Rightarrow> operand list \<Rightarrow> bool outcome) \<Rightarrow> heap \<Rightarrow> operand \<Rightarrow>
   string \<Rightarrow> operand \<Rightarrow> bool \<Rightarrow> operand list \<Rightarrow> bool \<times> nat \<Rightarrow> (bool \<times> nat) outcome" where
  "equalProp isEq h b key val cyc stack acc =
     (if cyc then Returns (fst acc, snd acc + 1)
      else obind (hasIn h b key) (\<lambda>present.
        if \<not> present then Returns (False, snd acc + 1)
        else obind (getProp h b key) (\<lambda>bval. obind (isEq val bval stack) (\<lambda>eq.
          Returns (if eq then fst acc else False, snd acc + 1)))))"

definition objectIsEqual ::
  "(operand \<Rightarrow> operand \<Rightarrow> operand list \<Rightarrow> bool outcome) \<Rightarrow> heap \<Rightarrow> operand \<Rightarrow> operand \<Rightarrow>
   string \<Rightarrow> operand list \<Rightarrow> bool outcome" where
  "objectIsEqual isEq h a b aClass stack =
     (if typeof h a \<noteq> typeof h b then Returns False
      else obind (valueOf h a) (\<lambda>av.
        if isObjectType h av then
          obind (getProp h a ''length'') (\<lambda>alen. obind (getProp h b ''length'') (\<lambda>blen.
            if \<not> strictEq alen blen then Returns False
            else obind (iterateWithCyclicCheck h a False stack (equalProp isEq h b) (True, 0))
              (\<lambda>acc. if \<not> fst acc \<or> snd acc \<noteq> length (getKeys h b) then Returns False
                       else stringsEqual h a b)))
        else stringsEqual h a b))"

text \<open>The body of \<open>isEqual\<close>; its recursive calls (its own and those of
  \<open>objectIsEqual\<close>) go to \<open>isEq\<close>. The division \<open>1 / a === 1 / b\<close> is only
  evaluated when \<open>a === 0\<close>.\<close>

definition isEqualBody ::
  "(operand \<Rightarrow> operand \<Rightarrow> operand list \<Rightarrow> bool outcome) \<Rightarrow> heap \<Rightarrow> operand \<Rightarrow> operand \<Rightarrow>
   operand list \<Rightarrow> bool outcome" where
  "isEqualBody isEq h a b stack =
     (if strictEq a b then
        Returns (if strictEq a (Val (VNum (NInt 0))) then numEq (oneOverZero a) (oneOverZero b) else True)
      else if classToString h a \<noteq> classToString h b then Returns False
      else if isSerializable h a (classToString h a) \<and> isSerializable h b (classToString h b) then
        objectIsEqual isEq h a b (classToString h a) stack
      else if isSet a (classToString h a) \<and> isSet b (classToString h b) then
        (if setSize h a \<noteq> setSize h b then Returns False
         else isEq (setToArray h a) (setToArray h b) stack)
      else if isMap a (classToString h a) \<and> isMap b (classToString h b) then
        (if mapSize h a \<noteq> mapSize h b then Returns False
         else isEq (mapToArray h a) (mapToArray h b) stack)
      else if isError a (classToString h a) \<and> isError b (classToString h b) then
        obind (toString h a) (\<lambda>sa. obind (toString h b) (\<lambda>sb. Returns (sa = sb)))
      else Returns False)"

text \<open>\<open>isEqual\<close> with a budget of nested calls.\<close>

primrec isEqual :: "nat \<Rightarrow> heap \<Rightarrow> operand \<Rightarrow> operand \<Rightarrow> operand list \<Rightarrow> bool outcome" where
  "isEqual 0 h a b stack = Exhausted"
| "isEqual (Suc n) h a b stack = isEqualBody (isEqual n h) h a b stack"

subsection \<open>\<open>serializeInternal\<close> and \<open>serializeDeep\<close>\<close>

text \<open>A token is a string, or for an object that cannot be serialized the index of
  the object in the caller's table of references (a number).\<close>

datatype token = TStr string | TNum nat

definition tokenString :: "token \<Rightarrow> string" where
  "tokenString t = (case t of TStr s \<Rightarrow> s | TNum n \<Rightarrow> natToString n)"

text \<open>\<open>indexOf(arr, el)\<close>: the first index whose element is \<open>===\<close> to \<open>el\<close>.\<close>

fun indexOf :: "jsval list \<Rightarrow> operand \<Rightarrow> nat option" where
  "indexOf [] el = None"
| "indexOf (x # xs) el = (if strictEq (Val x) el then Some 0 else map_option Suc (indexOf xs el))"

text \<open>The callback of \<open>serializeDeep\<close>; the accumulator is \<open>(result, refs)\<close>.\<close>

definition serializeProp ::
  "(operand \<Rightarrow> jsval list \<Rightarrow> operand list \<Rightarrow> (token \<times> jsval list) outcome) \<Rightarrow>
   string \<Rightarrow> operand \<Rightarrow> bool \<Rightarrow> operand list \<Rightarrow> string \<times> jsval list \<Rightarrow> (string \<times> jsval list) outcome" where
  "serializeProp ser key val cyc stack acc =
     (if cyc then Returns (fst acc @ ''CYC'', snd acc)
      else obind (ser val (snd acc) stack) (\<lambda>r.
        Returns (fst acc @ key @ tokenString (fst r), snd r)))"

definition serializeDeep ::
  "(operand \<Rightarrow> jsval list \<Rightarrow> operand list \<Rightarrow> (token \<times> jsval list) outcome) \<Rightarrow>
   heap \<Rightarrow> operand \<Rightarrow> jsval list \<Rightarrow> operand list \<Rightarrow> (string \<times> jsval list) outcome" where
  "serializeDeep ser h obj refs stack =
     iterateWithCyclicCheck h obj True stack (serializeProp ser) ([], refs)"

text \<open>The body of \<open>serializeInternal\<close>; the recursive calls of \<open>serializeDeep\<close> go
  to \<open>ser\<close>. The last two branches of the source are reached by a serializable value
  that is neither an object nor returned by the fast path, that is by \<open>NaN\<close>:
  \<open>1 / obj === -Infinity\<close> asks whether \<open>obj\<close> is the negative zero, and
  \<open>obj.valueOf()\<close> is the number itself.\<close>

definition serializeInternalBody ::
  "(operand \<Rightarrow> jsval list \<Rightarrow> operand list \<Rightarrow> (token \<times> jsval list) outcome) \<Rightarrow>
   heap \<Rightarrow> operand \<Rightarrow> jsval list \<Rightarrow> operand list \<Rightarrow> (token \<times> jsval list) outcome" where
  "serializeInternalBody ser h obj refs stack =
     (if isPrimitive h obj \<and> \<not> isRealNaN obj then
        Returns (TStr (typeof h obj @ (case obj of Val v \<Rightarrow> primToString v | _ \<Rightarrow> [])), refs)
      else if \<not> isSerializable h obj (classToString h obj) then
        (case indexOf refs obj of
           None \<Rightarrow> Returns (TNum (length refs), refs @ (case obj of Val v \<Rightarrow> [v] | _ \<Rightarrow> []))
         | Some i \<Rightarrow> Returns (TNum i, refs))
      else if isObjectType h obj then
        obind (serializeDeep ser h obj refs stack) (\<lambda>r.
          obind (toString h obj) (\<lambda>s.
            Returns (TStr (typeof h obj @ classToString h obj @ fst r @ s), snd r)))
      else if obj = Val (VNum NNegZero) then
        Returns (TStr (typeof h obj @ classToString h obj @ ''-0''), refs)
      else obind (valueOf h obj) (\<lambda>v. obind (toString h v) (\<lambda>s.
        Returns (TStr (typeof h obj @ classToString h obj @ s), refs))))"

text \<open>\<open>serializeInternal\<close> with a budget of nested calls.\<close>

primrec serializeInternal ::
  "nat \<Rightarrow> heap \<Rightarrow> operand \<Rightarrow> jsval list \<Rightarrow> operand list \<Rightarrow> (token \<times> jsval list) outcome" where
  "serializeInternal 0 h obj refs stack = Exhausted"
| "serializeInternal (Suc n) h obj refs stack =
     serializeInternalBody (serializeInternal n h) h obj refs stack"

subsection \<open>Entry points\<close>

text \<open>The recursion budget that suffices for every heap (theorem
  \<open>equal_and_serialize_terminate\<close>); the entry points start with an empty stack, which
  is what \<open>iterateWithCyclicCheck\<close> creates when it is handed none.\<close>

definition fuelBound :: "heap \<Rightarrow> nat" where
  "fuelBound h = 4 * (length h + 4)"

definition equal :: "heap \<Rightarrow> jsval \<Rightarrow> jsval \<Rightarrow> bool outcome" where
  "equal h a b = isEqual (fuelBound h) h (Val a) (Val b) []"

definition serialize :: "heap \<Rightarrow> jsval \<Rightarrow> jsval list \<Rightarrow> (token \<times> jsval list) outcome" where
  "serialize h obj refs = serializeInternal (fuelBound h) h (Val obj) refs []"

section \<open>Memoization with a hashed key (\<open>createHashedMemoizeFunction\<close>)\<close>

text \<open>
  The closure returned by \<open>createHashedMemoizeFunction(fn, hashFn, limit)\<close> owns a
  map from keys to results, the table of references handed to \<open>serializeInternal\<close>
  and a counter. A call threads that state. \<open>fn\<close> is the memoized function on the
  argument list; \<open>limit\<close> is \<open>None\<close> when no limit was given. The default
  \<open>hashFn\<close> of \<open>memoize\<close> is \<open>collectArguments\<close>, which copies the arguments
  into a fresh array.
\<close>

record 'r hashedMemo =
  hmMap :: "(string \<times> 'r) list"
  hmRefs :: "jsval list"
  hmCounter :: nat

definition createHashedMemoizeFunction :: "'r hashedMemo" where
  "createHashedMemoizeFunction = \<lparr> hmMap = [], hmRefs = [], hmCounter = 0 \<rparr>"

definition collectArguments :: "jsval list \<Rightarrow> operand" where
  "collectArguments args = Arr args"

definition callHashedMemoized ::
  "(jsval list \<Rightarrow> 'r) \<Rightarrow> (jsval list \<Rightarrow> operand) \<Rightarrow> nat option \<Rightarrow> heap \<Rightarrow>
   'r hashedMemo \<Rightarrow> jsval list \<Rightarrow> ('r \<times> 'r hashedMemo) outcome" where
  "callHashedMemoized fn hashFn limit h st args =
     obind (serializeInternal (fuelBound h) h (hashFn args) (hmRefs st) []) (\<lambda>r.
       let key = tokenString (fst r); st1 = st\<lparr>hmRefs := snd r\<rparr> in
       (case map_of (hmMap st1) key of
          Some res \<Rightarrow> Returns (res, st1)
        | None \<Rightarrow>
            (let st2 = (if limit = Some (hmCounter st1) then createHashedMemoizeFunction else st1)
             in Returns (fn args,
                  st2\<lparr>hmCounter := hmCounter st2 + 1, hmMap := (key, fn args) # hmMap st2\<rparr>))))"

section \<open>The path resolver\<close>

subsection \<open>Strings and numbers\<close>

text \<open>\<open>str.split(c)\<close> for a separator of one character: always at least one piece.\<close>

fun splitOn :: "char \<Rightarrow> string \<Rightarrow> string list" where
  "splitOn c [] = [[]]"
| "splitOn c (x # xs) =
     (if x = c then [] # splitOn c xs
      else (case splitOn c xs of w # ws \<Rightarrow> (x # w) # ws | [] \<Rightarrow> [[x]]))"

definition periodSplit :: "string \<Rightarrow> string list" where
  "periodSplit str = splitOn CHR ''.'' str"

text \<open>\<open>key.indexOf('..') !== -1\<close>.\<close>

fun hasDotDot :: "string \<Rightarrow> bool" where
  "hasDotDot (a # b # cs) = ((a = CHR ''.'' \<and> b = CHR ''.'') \<or> hasDotDot (b # cs))"
| "hasDotDot cs = False"

text \<open>\<open>key.indexOf(']')\<close>; \<open>None\<close> stands for \<open>-1\<close>.\<close>

fun indexOfChar :: "char \<Rightarrow> string \<Rightarrow> nat option" where
  "indexOfChar c [] = None"
| "indexOfChar c (x # xs) = (if x = c then Some 0 else map_option Suc (indexOfChar c xs))"

definition isDigit :: "char \<Rightarrow> bool" where
  "isDigit c = (c \<in> set ''0123456789'')"

definition digitValue :: "char \<Rightarrow> nat" where
  "digitValue c = (case indexOfChar c ''0123456789'' of Some d \<Rightarrow> d | None \<Rightarrow> 0)"

definition parseNat :: "string \<Rightarrow> nat option" where
  "parseNat s = (if s \<noteq> [] \<and> list_all isDigit s
     then Some (foldl (\<lambda>n c. 10 * n + digitValue c) 0 s) else None)"

text \<open>
  \<open>Number(str)\<close>, which unary \<open>+\<close> and the comparison \<open>key < 0\<close> apply to a string:
  modelled for the empty string, the optionally signed decimal integers and the
  infinities; every other spelling (exponents, hexadecimal, surrounding white space) is
  read as \<open>NaN\<close>. A match of \<open>[-\d]*\<close> is always within the modelled spellings.
\<close>

definition unsignedToNumber :: "string \<Rightarrow> jsnum" where
  "unsignedToNumber s = (case parseNat s of
       Some n \<Rightarrow> NInt (int n)
     | None \<Rightarrow> (if s = ''Infinity'' then NPosInf else NNaN))"

definition negate :: "jsnum \<Rightarrow> jsnum" where
  "negate n = (case n of
       NInt i \<Rightarrow> (if i = 0 then NNegZero else NInt (- i))
     | NNegZero \<Rightarrow> NInt 0
     | NNaN \<Rightarrow> NNaN
     | NPosInf \<Rightarrow> NNegInf
     | NNegInf \<Rightarrow> NPosInf)"

definition stringToNumber :: "string \<Rightarrow> jsnum" where
  "stringToNumber s = (case s of
       [] \<Rightarrow> NInt 0
     | c # cs \<Rightarrow> (if c = CHR ''-'' then negate (unsignedToNumber cs)
                 else if c = CHR ''+'' then unsignedToNumber cs
                 else unsignedToNumber s))"

definition toNumber :: "jsval \<Rightarrow> jsnum" where
  "toNumber v = (case v of
       VUndefined \<Rightarrow> NNaN
     | VNull \<Rightarrow> NInt 0
     | VBool b \<Rightarrow> (if b then NInt 1 else NInt 0)
     | VNum n \<Rightarrow> n
     | VStr s \<Rightarrow> stringToNumber s
     | VRef r \<Rightarrow> NNaN)"

text \<open>\<open>a < b\<close> and \<open>a + b\<close> on numbers.\<close>

definition numLess :: "jsnum \<Rightarrow> jsnum \<Rightarrow> bool" where
  "numLess a b = (case (a, b) of
       (NNaN, _) \<Rightarrow> False
     | (_, NNaN) \<Rightarrow> False
     | (NPosInf, _) \<Rightarrow> False
     | (_, NNegInf) \<Rightarrow> False
     | (NNegInf, _) \<Rightarrow> True
     | (_, NPosInf) \<Rightarrow> True
     | (NInt i, NInt j) \<Rightarrow> i < j
     | (NInt i, NNegZero) \<Rightarrow> i < 0
     | (NNegZero, NInt j) \<Rightarrow> 0 < j
     | (NNegZero, NNegZero) \<Rightarrow> False)"

definition numAdd :: "jsnum \<Rightarrow> jsnum \<Rightarrow> jsnum" where
  "numAdd a b = (case (a, b) of
       (NNaN, _) \<Rightarrow> NNaN
     | (_, NNaN) \<Rightarrow> NNaN
     | (NPosInf, NNegInf) \<Rightarrow> NNaN
     | (NNegInf, NPosInf) \<Rightarrow> NNaN
     | (NPosInf, _) \<Rightarrow> NPosInf
     | (_, NPosInf) \<Rightarrow> NPosInf
     | (NNegInf, _) \<Rightarrow> NNegInf
     | (_, NNegInf) \<Rightarrow> NNegInf
     | (NInt i, NInt j) \<Rightarrow> NInt (i + j)
     | (NInt i, NNegZero) \<Rightarrow> NInt i
     | (NNegZero, NInt j) \<Rightarrow> NInt j
     | (NNegZero, NNegZero) \<Rightarrow> NNegZero)"

text \<open>\<open>n + v\<close> for a number \<open>n\<close>: a sum of numbers, unless \<open>v\<close> is a string or an
  object, which is then appended to the numeral of \<open>n\<close> (an object by its
  \<open>toString\<close>; its \<open>valueOf\<close> is not consulted).\<close>

definition plus :: "heap \<Rightarrow> jsnum \<Rightarrow> jsval \<Rightarrow> jsval outcome" where
  "plus h n v = (case v of
       VStr s \<Rightarrow> Returns (VStr (numToString n @ s))
     | VRef r \<Rightarrow> obind (toStringV h v) (\<lambda>s. Returns (VStr (numToString n @ s)))
     | _ \<Rightarrow> Returns (VNum (numAdd n (toNumber v))))"

text \<open>The truth value of a value (\<open>!!v\<close>).\<close>

definition truthy :: "jsval \<Rightarrow> bool" where
  "truthy v = (case v of
       VUndefined \<Rightarrow> False
     | VNull \<Rightarrow> False
     | VBool b \<Rightarrow> b
     | VNum n \<Rightarrow> \<not> isZero n \<and> n \<noteq> NNaN
     | VStr s \<Rightarrow> s \<noteq> []
     | VRef r \<Rightarrow> True)"


subsection \<open>Reading and writing properties\<close>

text \<open>A key that is a canonical array index: the decimal numeral of a number.\<close>

definition parseIndex :: "string \<Rightarrow> nat option" where
  "parseIndex key = (case parseNat key of
       Some n \<Rightarrow> (if natToString n = key then Some n else None)
     | None \<Rightarrow> None)"

text \<open>The own properties of a string primitive: its \<open>length\<close> and its characters.\<close>

definition stringOwn :: "string \<Rightarrow> string \<Rightarrow> jsval option" where
  "stringOwn s key = (if key = ''length'' then Some (VNum (NInt (int (length s))))
     else (case parseIndex key of
         Some i \<Rightarrow> (if i < length s then Some (VStr [s ! i]) else None)
       | None \<Rightarrow> None))"

definition ownLookup :: "heap \<Rightarrow> jsval \<Rightarrow> string \<Rightarrow> jsval option" where
  "ownLookup h ns key = (case ns of
       VRef r \<Rightarrow> map_of (props (deref h r) @ hidden (deref h r)) key
     | VStr s \<Rightarrow> stringOwn s key
     | _ \<Rightarrow> None)"

text \<open>\<open>hasOwn(obj, prop)\<close> is \<open>!!obj && internalHasOwnProperty.call(obj, prop)\<close>.\<close>

definition hasOwn :: "heap \<Rightarrow> jsval \<Rightarrow> string \<Rightarrow> bool" where
  "hasOwn h obj prop = (truthy obj \<and> ownLookup h obj prop \<noteq> None)"

text \<open>\<open>ns[key]\<close>: throws on \<open>undefined\<close> and \<open>null\<close>; the members a primitive inherits
  from its wrapper's prototype are not modelled (the resolver only reads a property
  that \<open>hasOwn\<close> or \<open>in\<close> has found).\<close>

definition readProp :: "heap \<Rightarrow> jsval \<Rightarrow> string \<Rightarrow> jsval outcome" where
  "readProp h ns key = (case ns of
       VUndefined \<Rightarrow> Throws
     | VNull \<Rightarrow> Throws
     | VRef r \<Rightarrow> (case map_of (props (deref h r) @ hidden (deref h r) @ inherited (deref h r)) key of
           Some v \<Rightarrow> Returns v | None \<Rightarrow> Returns VUndefined)
     | VStr s \<Rightarrow> (case stringOwn s key of Some v \<Rightarrow> Returns v | None \<Rightarrow> Returns VUndefined)
     | _ \<Rightarrow> Returns VUndefined)"

text \<open>The name under which a value is used as a property key.\<close>

definition toPropertyKey :: "heap \<Rightarrow> jsval \<Rightarrow> string outcome" where
  "toPropertyKey h key = (case key of VRef r \<Rightarrow> toStringV h key | _ \<Rightarrow> Returns (primToString key))"

definition arrayLength :: "jsobj \<Rightarrow> nat" where
  "arrayLength ob = (case map_of (hidden ob) ''length'' of
       Some (VNum (NInt n)) \<Rightarrow> nat n | _ \<Rightarrow> 0)"

text \<open>Own enumerable properties are kept in enumeration order: the array indices in
  ascending order, then the other keys in insertion order.\<close>

fun insertProp :: "(string \<times> jsval) list \<Rightarrow> string \<Rightarrow> jsval \<Rightarrow> (string \<times> jsval) list" where
  "insertProp [] key val = [(key, val)]"
| "insertProp ((k, v) # ps) key val =
     (case parseIndex key of
        None \<Rightarrow> (k, v) # insertProp ps key val
      | Some i \<Rightarrow> (case parseIndex k of
            None \<Rightarrow> (key, val) # (k, v) # ps
          | Some j \<Rightarrow> (if i < j then (key, val) # (k, v) # ps else (k, v) # insertProp ps key val)))"

definition updateProp :: "(string \<times> jsval) list \<Rightarrow> string \<Rightarrow> jsval \<Rightarrow> (string \<times> jsval) list" where
  "updateProp ps key val = map (\<lambda>(k, v). if k = key then (k, val) else (k, v)) ps"

text \<open>
  \<open>ob[key] = val\<close> on an object: an existing own property is overwritten; a new one is
  added, and a new index at or past the end of an array moves its \<open>length\<close>. Writing
  the \<open>length\<close> of an array cuts the array or throws \<open>RangeError\<close>. Setters and
  read-only properties are not modelled.
\<close>

definition putOwn :: "jsobj \<Rightarrow> string \<Rightarrow> jsval \<Rightarrow> jsobj outcome" where
  "putOwn ob key val =
     (if key \<in> set (map fst (props ob)) then Returns (ob\<lparr>props := updateProp (props ob) key val\<rparr>)
      else if cls ob = ''Array'' \<and> key = ''length'' then
        (case toNumber val of
           NInt n \<Rightarrow> (if 0 \<le> n then
               Returns (ob\<lparr>props := filter (\<lambda>(k, v). case parseIndex k of Some i \<Rightarrow> int i < n | None \<Rightarrow> True) (props ob),
                           hidden := updateProp (hidden ob) key (VNum (NInt n))\<rparr>)
             else Throws)
         | NNegZero \<Rightarrow> Returns (ob\<lparr>props := filter (\<lambda>(k, v). parseIndex k = None) (props ob),
                           hidden := updateProp (hidden ob) key (VNum (NInt 0))\<rparr>)
         | _ \<Rightarrow> Throws)
      else if key \<in> set (map fst (hidden ob)) then Returns (ob\<lparr>hidden := updateProp (hidden ob) key val\<rparr>)
      else (case parseIndex key of
          Some i \<Rightarrow> (if cls ob = ''Array'' \<and> arrayLength ob \<le> i
             then Returns (ob\<lparr>props := insertProp (props ob) key val,
                             hidden := updateProp (hidden ob) ''length'' (VNum (NInt (int i + 1)))\<rparr>)
             else Returns (ob\<lparr>props := insertProp (props ob) key val\<rparr>))
        | None \<Rightarrow> Returns (ob\<lparr>props := insertProp (props ob) key val\<rparr>)))"

text \<open>\<open>ns[key] = val\<close> in strict mode: a write to anything but an object throws.\<close>

definition writeProp :: "heap \<Rightarrow> jsval \<Rightarrow> string \<Rightarrow> jsval \<Rightarrow> heap outcome" where
  "writeProp h ns key val = (case ns of
       VRef r \<Rightarrow> (if r < length h
           then obind (putOwn (h ! r) key val) (\<lambda>ob. Returns (h[r := ob]))
           else Throws)
     | _ \<Rightarrow> Throws)"

text \<open>
  Objects the resolver creates: \<open>[]\<close>, \<open>{}\<close> and the arrays that \<open>slice\<close> and
  \<open>map\<close> return, given by the elements they hold (an index that is missing is a
  hole). They are allocated at the end of the heap. What is supplied by the host for the
  objects of the caller is fixed here at creation: the string of the object, and no
  inherited members. The resolver never reads \<open>valueOfRes\<close> and \<open>toStringRes\<close> and
  leaves them as they are when it writes a property: after a write they describe the
  object as it was before.
\<close>

definition arrayObject :: "heap \<Rightarrow> (nat \<times> jsval) list \<Rightarrow> nat \<Rightarrow> jsobj" where
  "arrayObject h elems len =
     \<lparr> cls = ''Array'', props = map (\<lambda>(i, v). (natToString i, v)) elems,
       hidden = [(''length'', VNum (NInt (int len)))], inherited = [], plainProto = False,
       valueOfRes = Self,
       toStringRes = (case joinArray h (map (\<lambda>i. case map_of elems i of Some v \<Rightarrow> v | None \<Rightarrow> VUndefined) [0..<len]) of
                        Returns s \<Rightarrow> Some s | _ \<Rightarrow> None),
       setItems = [], mapItems = [] \<rparr>"

definition emptyObject :: jsobj where
  "emptyObject = \<lparr> cls = ''Object'', props = [], hidden = [], inherited = [], plainProto = True,
       valueOfRes = Self, toStringRes = Some ''[object Object]'', setItems = [], mapItems = [] \<rparr>"

definition alloc :: "heap \<Rightarrow> jsobj \<Rightarrow> jsval \<times> heap" where
  "alloc h ob = (VRef (length h), h @ [ob])"

definition isArray :: "heap \<Rightarrow> jsval \<Rightarrow> bool" where
  "isArray h v = (case v of VRef r \<Rightarrow> cls (deref h r) = ''Array'' | _ \<Rightarrow> False)"

text \<open>The elements of an array with their indices, holes left out.\<close>

definition arrayElems :: "heap \<Rightarrow> jsval \<Rightarrow> (nat \<times> jsval) list" where
  "arrayElems h v = (case v of
       VRef r \<Rightarrow> concat (map (\<lambda>i. case map_of (props (deref h r)) (natToString i) of
                                     Some x \<Rightarrow> [(i, x)] | None \<Rightarrow> [])
                           [0..<arrayLength (deref h r)])
     | _ \<Rightarrow> [])"

text \<open>\<open>arr.slice(start, end)\<close>: the relative indices are clamped to the array.\<close>

definition relativeIndex :: "jsnum \<Rightarrow> nat \<Rightarrow> nat" where
  "relativeIndex n len = (case n of
       NInt i \<Rightarrow> (if i < 0 then nat (int len + i) else min (nat i) len)
     | NNegZero \<Rightarrow> 0
     | NNaN \<Rightarrow> 0
     | NPosInf \<Rightarrow> len
     | NNegInf \<Rightarrow> 0)"

definition sliceArray :: "heap \<Rightarrow> jsval \<Rightarrow> jsnum \<Rightarrow> jsnum \<Rightarrow> jsval \<times> heap" where
  "sliceArray h arr start end' =
     (let len = (case arr of VRef r \<Rightarrow> arrayLength (deref h r) | _ \<Rightarrow> 0);
          k = relativeIndex start len;
          final = relativeIndex end' len;
          elems = concat (map (\<lambda>(i, v). if k \<le> i \<and> i < final then [(i - k, v)] else []) (arrayElems h arr))
      in alloc h (arrayObject h elems (final - k)))"


subsection \<open>\<open>PROPERTY_RANGE_REG\<close>\<close>

text \<open>
  The regular expression \<open>/^(.*?)\[([-\d]*)\.\.([-\d]*)\](.*)$/\<close>. The lazy first
  group tries each \<open>[\<close> from the left; after it the two runs of \<open>[-\d]\<close> are
  maximal (what follows a run is a \<open>.\<close> or a \<open>]\<close>, which the run cannot hold), and a
  \<open>.\<close> of the pattern matches no line terminator. A match gives the four groups.
\<close>

definition isRangeChar :: "char \<Rightarrow> bool" where
  "isRangeChar c = (c = CHR ''-'' \<or> isDigit c)"

definition isLineTerminator :: "char \<Rightarrow> bool" where
  "isLineTerminator c = (c = CHR 0x0A \<or> c = CHR 0x0D)"

definition matchRangeTail :: "string \<Rightarrow> (string \<times> string \<times> string) option" where
  "matchRangeTail s =
     (let a = takeWhile isRangeChar s; r1 = dropWhile isRangeChar s in
      if take 2 r1 = ''..'' then
        (let b = takeWhile isRangeChar (drop 2 r1); r2 = dropWhile isRangeChar (drop 2 r1) in
         if take 1 r2 = '']'' \<and> \<not> list_ex isLineTerminator (drop 1 r2)
         then Some (a, b, drop 1 r2) else None)
      else None)"

fun matchRangeFrom :: "string \<Rightarrow> string \<Rightarrow> (string \<times> string \<times> string \<times> string) option" where
  "matchRangeFrom pre [] = None"
| "matchRangeFrom pre (c # cs) =
     (case (if c = CHR ''['' then matchRangeTail cs else None) of
        Some (a, b, t) \<Rightarrow> Some (rev pre, a, b, t)
      | None \<Rightarrow> (if isLineTerminator c then None else matchRangeFrom (c # pre) cs))"

definition matchRange :: "string \<Rightarrow> (string \<times> string \<times> string \<times> string) option" where
  "matchRange key = matchRangeFrom [] key"

subsection \<open>\<open>handleDeepProperty\<close> and \<open>handleArrayIndexRange\<close>\<close>

text \<open>
  The \<open>key\<close> argument: \<open>null\<close> or \<open>undefined\<close>, a string (any other primitive is
  turned into one by \<open>String(key)\<close>), or an array of strings. \<open>val\<close> is the value to
  set; as in the source, \<open>undefined\<close> means that nothing is set.
\<close>

datatype pathKey = PNull | PStr string | PList "string list"

text \<open>One step of the two nested loops: the segment, its bracket part \<open>i\<close>, and
  whether \<open>j === plen - 1\<close>, whether \<open>i === blen - 1\<close>.\<close>

record segment =
  segKey :: string
  segI :: nat
  segLastJ :: bool
  segLastI :: bool

fun markLast :: "'a list \<Rightarrow> ('a \<times> bool) list" where
  "markLast [] = []"
| "markLast [x] = [(x, True)]"
| "markLast (x # y # ys) = (x, False) # markLast (y # ys)"

definition segmentsOf :: "string list list \<Rightarrow> segment list" where
  "segmentsOf pss = concat (map (\<lambda>((ps, lastI), i).
       map (\<lambda>(k, lastJ). \<lparr> segKey = k, segI = i, segLastJ = lastJ, segLastI = lastI \<rparr>) (markLast ps))
     (zip (markLast pss) [0..<length pss]))"

type_synonym deepProperty =
  "heap \<Rightarrow> jsval \<Rightarrow> pathKey \<Rightarrow> bool \<Rightarrow> bool \<Rightarrow> bool \<Rightarrow> bool \<Rightarrow> jsval \<Rightarrow> (jsval \<times> heap) outcome"

text \<open>The body of the inner loop, for the segments that are left; \<open>ns\<close> and the heap
  are the state of the loop. \<open>has\<close> returns from inside the loop.\<close>

fun walk :: "nat \<Rightarrow> bool \<Rightarrow> bool \<Rightarrow> bool \<Rightarrow> bool \<Rightarrow> jsval \<Rightarrow> heap \<Rightarrow> jsval \<Rightarrow> segment list \<Rightarrow>
    (jsval \<times> heap) outcome" where
  "walk blen any has fill fillLast val h ns [] = Returns (ns, h)"
| "walk blen any has fill fillLast val h ns (sg # rest) =
     (let set = (val \<noteq> VUndefined);
          isLast = (segLastI sg \<and> segLastJ sg);
          cbi = indexOfChar CHR '']'' (segKey sg);
          isIndex = (cbi \<noteq> None);
          isPush = (set \<and> cbi = Some 0);
          nextIsIndex = (blen > 1 \<and> segLastJ sg)
      in obind (if isPush then readProp h ns ''length''
                else if isIndex then Returns (VStr (butlast (segKey sg)))
                else Returns (VStr (segKey sg))) (\<lambda>key1.
         obind (if isIndex \<and> numLess (toNumber key1) (NInt 0)
                then obind (readProp h ns ''length'') (plus h (toNumber key1))
                else Returns key1) (\<lambda>key.
         if segI sg \<noteq> 0 \<or> truthy key \<or> blen = 1 then
           obind (toPropertyKey h key) (\<lambda>name.
           obind (if any then hasIn h (Val ns) name else Returns (hasOwn h ns name)) (\<lambda>exists.
             if fill \<and> (\<not> isLast \<or> fillLast) \<and> \<not> exists then
               (let created = alloc h (if nextIsIndex \<or> (fillLast \<and> isLast) then arrayObject h [] 0 else emptyObject)
                in obind (writeProp (snd created) ns name (fst created)) (\<lambda>h'.
                     walk blen any has fill fillLast val h' (fst created) rest))
             else if has then
               (if isLast \<or> \<not> exists then Returns (VBool exists, h)
                else obind (readProp h ns name) (\<lambda>v. walk blen any has fill fillLast val h v rest))
             else
               obind (if set \<and> isLast then writeProp h ns name val else Returns h) (\<lambda>h'.
                 obind (if exists then readProp h' ns name else Returns VUndefined) (\<lambda>v.
                   walk blen any has fill fillLast val h' v rest))))
         else walk blen any has fill fillLast val h ns rest)))"


text \<open>The indices \<open>i\<close> of \<open>for (i = start; i < end; i++)\<close>; with a \<open>NaN\<close> bound the
  loop does not run. (\<open>start\<close> is a match of \<open>[-\d]*\<close> read as a number, or zero.)\<close>

definition loopIndices :: "jsnum \<Rightarrow> jsnum \<Rightarrow> int list" where
  "loopIndices start end' = (case (start, end') of
       (NInt i, NInt j) \<Rightarrow> [i..j - 1]
     | (NNegZero, NInt j) \<Rightarrow> [0..j - 1]
     | _ \<Rightarrow> [])"

fun setEach :: "(heap \<Rightarrow> string \<Rightarrow> (jsval \<times> heap) outcome) \<Rightarrow> heap \<Rightarrow> string list \<Rightarrow> heap outcome" where
  "setEach f h [] = Returns h"
| "setEach f h (k # ks) = obind (f h k) (\<lambda>r. setEach f (snd r) ks)"

fun mapEach :: "(heap \<Rightarrow> jsval \<Rightarrow> (jsval \<times> heap) outcome) \<Rightarrow> heap \<Rightarrow> (nat \<times> jsval) list \<Rightarrow>
    ((nat \<times> jsval) list \<times> heap) outcome" where
  "mapEach f h [] = Returns ([], h)"
| "mapEach f h ((i, el) # els) =
     obind (f h el) (\<lambda>r. obind (mapEach f (snd r) els) (\<lambda>rs. Returns ((i, fst r) # fst rs, snd rs)))"

text \<open>\<open>handleArrayIndexRange\<close>; its calls of \<open>handleDeepProperty\<close> go to \<open>deep\<close>.\<close>

definition handleArrayIndexRange ::
  "deepProperty \<Rightarrow> heap \<Rightarrow> jsval \<Rightarrow> string \<Rightarrow> bool \<Rightarrow> jsval \<Rightarrow> (jsval \<times> heap) outcome" where
  "handleArrayIndexRange deep h obj key any val =
     (case matchRange key of
        None \<Rightarrow> Returns (VUndefined, h)
      | Some (leading, m2, m3, trailing) \<Rightarrow>
          (let set = (val \<noteq> VUndefined) in
           obind (if leading \<noteq> [] then deep h obj (PStr leading) any False set True VUndefined
                  else Returns (obj, h)) (\<lambda>found.
             let arr = fst found; h1 = snd found in
             if \<not> isArray h1 arr then Throws
             else obind (readProp h1 arr ''length'') (\<lambda>len.
               let start = (if m2 \<noteq> [] then stringToNumber m2 else NInt 0);
                   end0 = (if m3 \<noteq> [] then stringToNumber m3 else toNumber len);
                   end1 = (if numEq end0 (NInt (- 1)) then toNumber len else numAdd end0 (NInt 1))
               in if set then
                    obind (setEach (\<lambda>h' k. deep h' arr (PStr k) any False True False val) h1
                             (map (\<lambda>i. numToString (NInt i) @ trailing) (loopIndices start end1)))
                      (\<lambda>h2. Returns (arr, h2))
                  else
                    (let sliced = sliceArray h1 arr start end1 in
                     if trailing \<noteq> [] then
                       (let trailing' = (if hd trailing = CHR ''.'' then tl trailing else trailing) in
                        obind (mapEach (\<lambda>h' el. deep h' el (PStr trailing') False False False False VUndefined)
                                 (snd sliced) (arrayElems (snd sliced) (fst sliced)))
                          (\<lambda>mapped. Returns (alloc (snd mapped)
                             (arrayObject (snd mapped) (fst mapped)
                                (case fst sliced of VRef r \<Rightarrow> arrayLength (deref (snd sliced) r) | _ \<Rightarrow> 0)))))
                     else Returns sliced)))))"

text \<open>The body of \<open>handleDeepProperty\<close>.\<close>

definition handleDeepPropertyBody ::
  "deepProperty \<Rightarrow> deepProperty" where
  "handleDeepPropertyBody deep h obj key any has fill fillLast val =
     (let ns = (if truthy obj then obj else VUndefined) in
      case key of
        PNull \<Rightarrow> Returns (VUndefined, h)
      | PList ks \<Rightarrow> walk 1 any has fill fillLast val h ns (segmentsOf [ks])
      | PStr s \<Rightarrow>
          (if hasDotDot s then handleArrayIndexRange deep h obj s any val
           else walk (length (splitOn CHR ''['' s)) any has fill fillLast val h ns
                  (segmentsOf (map periodSplit (splitOn CHR ''['' s)))))"

text \<open>\<open>handleDeepProperty\<close> with a budget of nested calls (a range inside a range).\<close>

primrec handleDeepProperty :: "nat \<Rightarrow> deepProperty" where
  "handleDeepProperty 0 h obj key any has fill fillLast val = Exhausted"
| "handleDeepProperty (Suc n) h obj key any has fill fillLast val =
     handleDeepPropertyBody (handleDeepProperty n) h obj key any has fill fillLast val"

text \<open>Every nested call works on a key with fewer periods, so this budget suffices.\<close>

definition pathFuel :: "pathKey \<Rightarrow> nat" where
  "pathFuel key = (case key of PStr s \<Rightarrow> Suc (length (filter (\<lambda>c. c = CHR ''.'') s)) | _ \<Rightarrow> 1)"

definition deepHasProperty :: "heap \<Rightarrow> jsval \<Rightarrow> pathKey \<Rightarrow> bool \<Rightarrow> (jsval \<times> heap) outcome" where
  "deepHasProperty h obj key any = handleDeepProperty (pathFuel key) h obj key any True False False VUndefined"

definition deepGetProperty :: "heap \<Rightarrow> jsval \<Rightarrow> pathKey \<Rightarrow> bool \<Rightarrow> (jsval \<times> heap) outcome" where
  "deepGetProperty h obj key any = handleDeepProperty (pathFuel key) h obj key any False False False VUndefined"

definition deepSetProperty :: "heap \<Rightarrow> jsval \<Rightarrow> pathKey \<Rightarrow> jsval \<Rightarrow> (jsval \<times> heap) outcome" where
  "deepSetProperty h obj key val =
     obind (handleDeepProperty (pathFuel key) h obj key False False True False val) (\<lambda>r. Returns (obj, snd r))"

section \<open>Internal memoization (\<open>memoizeFunction\<close>)\<close>

text \<open>
  \<open>memoizeFunction(fn)\<close> returns a closure over a table \<open>memo\<close> and a counter. The
  state of one such closure is a record; a call takes the state and returns the outcome
  of the call with the new state. \<open>fn\<close> may throw. An assignment to the key
  \<open>__proto__\<close> creates no own property, so that key is never found by \<open>hasOwn\<close>.
  In the source the only caller is \<open>createFormatMatcher\<close>, for the compiled form of a
  format string.
\<close>

record 'v memo =
  memoEntries :: "(string \<times> 'v) list"
  memoCounter :: nat

definition INTERNAL_MEMOIZE_LIMIT :: nat where
  "INTERNAL_MEMOIZE_LIMIT = 1000"

definition memoizeFunction :: "'v memo" where
  "memoizeFunction = \<lparr> memoEntries = [], memoCounter = 0 \<rparr>"

definition callMemoized :: "(string \<Rightarrow> 'v outcome) \<Rightarrow> 'v memo \<Rightarrow> string \<Rightarrow> 'v outcome \<times> 'v memo" where
  "callMemoized fn m key =
     (case map_of (memoEntries m) key of
        Some v \<Rightarrow> (Returns v, m)
      | None \<Rightarrow>
          (let m1 = (if memoCounter m = INTERNAL_MEMOIZE_LIMIT then memoizeFunction else m);
               m2 = m1\<lparr>memoCounter := memoCounter m1 + 1\<rparr>
           in case fn key of
                Returns v \<Rightarrow> (Returns v,
                   if key = ''__proto__'' then m2 else m2\<lparr>memoEntries := (key, v) # memoEntries m2\<rparr>)
              | Throws \<Rightarrow> (Throws, m2)
              | Exhausted \<Rightarrow> (Exhausted, m2)))"

text \<open>The state of a memoized closure after a sequence of calls.\<close>

definition memoAfter :: "(string \<Rightarrow> 'v outcome) \<Rightarrow> string list \<Rightarrow> 'v memo" where
  "memoAfter fn keys = foldl (\<lambda>m key. snd (callMemoized fn m key)) memoizeFunction keys"

text \<open>
  The state of the module that the path functions and the format matchers share: the
  heap, and the memoized closures that exist (one for each \<open>createFormatMatcher\<close>).
  \<open>compileMemoized\<close> is the call that a format matcher makes for its format string,
  \<open>compile\<close> being its parser. The path functions are \<open>deepGetProperty\<close>,
  \<open>deepHasProperty\<close> and \<open>deepSetProperty\<close> on the heap of the module; the state
  after an exception is not modelled.
\<close>

record 'v moduleState =
  objects :: heap
  memos :: "'v memo list"

definition createFormatMatcher :: "'v moduleState \<Rightarrow> nat \<times> 'v moduleState" where
  "createFormatMatcher st = (length (memos st), st\<lparr>memos := memos st @ [memoizeFunction]\<rparr>)"

definition compileMemoized ::
  "(string \<Rightarrow> 'v outcome) \<Rightarrow> 'v moduleState \<Rightarrow> nat \<Rightarrow> string \<Rightarrow> 'v outcome \<times> 'v moduleState" where
  "compileMemoized compile st matcher str =
     (let r = callMemoized compile (memos st ! matcher) str
      in (fst r, st\<lparr>memos := (memos st)[matcher := snd r]\<rparr>))"

definition onObjects ::
  "'v moduleState \<Rightarrow> (jsval \<times> heap) outcome \<Rightarrow> (jsval \<times> 'v moduleState) outcome" where
  "onObjects st r = obind r (\<lambda>p. Returns (fst p, st\<lparr>objects := snd p\<rparr>))"

definition pathGet :: "'v moduleState \<Rightarrow> jsval \<Rightarrow> pathKey \<Rightarrow> bool \<Rightarrow> (jsval \<times> 'v moduleState) outcome" where
  "pathGet st obj key any = onObjects st (deepGetProperty (objects st) obj key any)"

definition pathHas :: "'v moduleState \<Rightarrow> jsval \<Rightarrow> pathKey \<Rightarrow> bool \<Rightarrow> (jsval \<times> 'v moduleState) outcome" where
  "pathHas st obj key any = onObjects st (deepHasProperty (objects st) obj key any)"

definition pathSet :: "'v moduleState \<Rightarrow> jsval \<Rightarrow> pathKey \<Rightarrow> jsval \<Rightarrow> (jsval \<times> 'v moduleState) outcome" where
  "pathSet st obj key val = onObjects st (deepSetProperty (objects st) obj key val)"

section \<open>The core: namespaces, method definition and extension\<close>

subsection \<open>Functions, tables and the state of the module\<close>

text \<open>
  An exception is a \<open>TypeError\<close> that the library throws with a message of its own, a
  \<open>TypeError\<close> of the language itself (a property read on \<open>undefined\<close>, a call of what
  is not a function; its message depends on the engine), or an exception thrown by code
  that is not the library's. An operation of the core returns an exception or a result,
  together with the state it leaves: what was written before a \<open>throw\<close> stays written.
\<close>

datatype error = TypeError string | EngineTypeError | HostError

text \<open>
  The values that flow through a call: a value of the caller, the array in which
  \<open>wrapMethodWithArguments\<close> collects arguments, and a chainable object
  (\<open>new fn(obj)\<close> for the chainable class at the given address) with its \<open>raw\<close>.
\<close>

datatype datum = Plain jsval | Collected "datum list" | Chainable nat datum

text \<open>
  What a function does when it is called. The functions of the host and of the caller
  are opaque and identified by a number; the others are the closures the library
  returns. A closure holds the function it wraps; the code of a function never
  changes, so the closure is described by the code it wraps.
  \<^item> \<open>InstanceFixed fn k\<close>: \<open>wrapInstanceMethodFixed(fn)\<close>, the closure of the
    \<open>switch\<close> case that names \<open>k\<close> parameters and calls \<open>fn(this, a, ...)\<close>;
  \<^item> \<open>WithArguments fn startCollect instance\<close>: \<open>wrapMethodWithArguments(fn, instance)\<close>;
  \<^item> \<open>ChainableResult fn\<close>: \<open>wrapWithChainableResult(fn)\<close>;
  \<^item> \<open>Disambiguate methodName\<close>: \<open>disambiguateMethod(methodName)\<close>.
\<close>

datatype code =
    Host nat
  | InstanceFixed code nat
  | WithArguments code int bool
  | ChainableResult code
  | Disambiguate string

text \<open>
  A function object: its code, its \<open>length\<close>, and the own properties the library
  sets and reads on it. \<open>fnInstance\<close> is \<open>None\<close> when there is no own property
  \<open>instance\<close>, \<open>Some None\<close> when the property holds \<open>undefined\<close>, and
  \<open>Some (Some a)\<close> when it holds the function at address \<open>a\<close>.
\<close>

record fobj =
  fnCode :: code
  fnLength :: nat
  fnInstance :: "nat option option"
  fnStatic :: bool
  fnFlags :: "string list option"
  fnDisambiguate :: bool

text \<open>
  A property of a native class or prototype holds a function (by address) or a value
  that is not a function, of which the library only tests whether it is truthy.
\<close>

datatype slot = Fn nat | NotFn bool

type_synonym table = "(string \<times> slot) list"

text \<open>A global constructor: the own properties of the constructor and of its
  \<open>prototype\<close>. The prototype inherits from \<open>Object.prototype\<close>, the constructor from
  \<open>Function.prototype\<close> and then from \<open>Object.prototype\<close>.\<close>

record native =
  statics :: table
  members :: table

text \<open>
  A chainable class (\<open>getNewChainableClass\<close>); a namespace is one. \<open>chMethods\<close> are
  its own enumerable properties, the methods defined on it; \<open>chProto\<close> are the own
  enumerable properties of its \<open>prototype\<close>, the chainable methods. The members that
  \<open>setProperty\<close> hides from enumeration (\<open>extend\<close>, \<open>alias\<close>, \<open>toString\<close>, the
  \<open>define...\<close> family, \<open>valueOf\<close> and \<open>constructor\<close> on the prototype) are the
  operations of this model, and \<open>active\<close> is a field; a method is assumed not to be
  named like one of them, nor \<open>raw\<close>, \<open>instance\<close>, \<open>static\<close>, \<open>flags\<close>,
  \<open>disambiguate\<close>, \<open>prototype\<close> or \<open>__proto__\<close>.
\<close>

record chainable =
  chName :: string
  chMethods :: "(string \<times> nat) list"
  chActive :: bool
  chProto :: "(string \<times> nat) list"

text \<open>
  The variables of the module. Objects are named by their address in a store, so that
  identity can be told: \<open>fobjs\<close> holds the function objects, \<open>chainables\<close> the
  chainable classes, \<open>DefaultChainable\<close> at address 0. \<open>sugar\<close> are the own
  enumerable properties of the \<open>Sugar\<close> global, \<open>globalContext\<close> the global
  constructors by name (two names never denote the same constructor).
\<close>

record core =
  fobjs :: "fobj list"
  chainables :: "chainable list"
  namespacesByName :: "(string \<times> nat) list"
  namespacesByClassString :: "(string \<times> nat) list"
  sugar :: "(string \<times> nat) list"
  globalContext :: "(string \<times> native) list"
  allowObjectPrototype :: bool

text \<open>
  What the library needs of the language and of the caller when a function is called:
  what a function of the host returns for a \<open>this\<close> and arguments, how a value converts
  to a string in \<open>'...' + raw\<close> (the conversion may throw), and the heap of the caller's
  objects, for \<open>classToString(raw)\<close> and for \<open>this.raw\<close> on an object of the caller.
\<close>

record environment =
  envCall :: "nat \<Rightarrow> datum \<Rightarrow> datum list \<Rightarrow> error + datum"
  envToString :: "datum \<Rightarrow> error + string"
  envHeap :: heap

type_synonym 'a step = "core \<Rightarrow> (error + 'a) \<times> core"

text \<open>\<open>obj[key] = v\<close> on own properties kept in order: an existing property keeps
  its place, a new one is added at the end.\<close>

fun assign :: "'k \<Rightarrow> 'v \<Rightarrow> ('k \<times> 'v) list \<Rightarrow> ('k \<times> 'v) list" where
  "assign k v [] = [(k, v)]"
| "assign k v (p # ps) = (if fst p = k then (k, v) # ps else p # assign k v ps)"

text \<open>\<open>forEachProperty\<close> with a callback that may throw.\<close>

fun forEachProperty :: "('a \<Rightarrow> unit step) \<Rightarrow> 'a list \<Rightarrow> unit step" where
  "forEachProperty f [] st = (Inr (), st)"
| "forEachProperty f (x # xs) st = (case f x st of
       (Inl e, st') \<Rightarrow> (Inl e, st')
     | (Inr u, st') \<Rightarrow> forEachProperty f xs st')"

text \<open>An address outside a store names nothing the program made; it is read as a
  function of the host without properties, and as a class without methods.\<close>

definition noFunction :: fobj where
  "noFunction = \<lparr> fnCode = Host 0, fnLength = 0, fnInstance = None, fnStatic = False,
     fnFlags = None, fnDisambiguate = False \<rparr>"

definition fnAt :: "core \<Rightarrow> nat \<Rightarrow> fobj" where
  "fnAt st a = (if a < length (fobjs st) then fobjs st ! a else noFunction)"

definition getNewChainableClass :: "string \<Rightarrow> chainable" where
  "getNewChainableClass name = \<lparr> chName = name, chMethods = [], chActive = False, chProto = [] \<rparr>"

definition chainableAt :: "core \<Rightarrow> nat \<Rightarrow> chainable" where
  "chainableAt st c = (if c < length (chainables st) then chainables st ! c else getNewChainableClass [])"

definition newFunction :: "fobj \<Rightarrow> core \<Rightarrow> nat \<times> core" where
  "newFunction f st = (length (fobjs st), st\<lparr>fobjs := fobjs st @ [f]\<rparr>)"

definition updateFunction :: "nat \<Rightarrow> (fobj \<Rightarrow> fobj) \<Rightarrow> core \<Rightarrow> core" where
  "updateFunction a f st = st\<lparr>fobjs := (fobjs st)[a := f (fnAt st a)]\<rparr>"

definition updateChainable :: "nat \<Rightarrow> (chainable \<Rightarrow> chainable) \<Rightarrow> core \<Rightarrow> core" where
  "updateChainable c f st = st\<lparr>chainables := (chainables st)[c := f (chainableAt st c)]\<rparr>"

text \<open>A function as the caller writes it: code of the caller, a \<open>length\<close>, no
  properties.\<close>

definition hostFunction :: "nat \<Rightarrow> nat \<Rightarrow> fobj" where
  "hostFunction i n = noFunction\<lparr>fnCode := Host i, fnLength := n\<rparr>"

subsection \<open>Reading natives\<close>

datatype target = ClassOf string | ProtoOf string

definition membersOf :: "core \<Rightarrow> string \<Rightarrow> table" where
  "membersOf st name = (case map_of (globalContext st) name of Some n \<Rightarrow> members n | None \<Rightarrow> [])"

definition staticsOf :: "core \<Rightarrow> string \<Rightarrow> table" where
  "staticsOf st name = (case map_of (globalContext st) name of Some n \<Rightarrow> statics n | None \<Rightarrow> [])"

text \<open>\<open>target[key]\<close>, through the prototype chain.\<close>

definition readTarget :: "core \<Rightarrow> target \<Rightarrow> string \<Rightarrow> slot option" where
  "readTarget st t key = (case t of
      ProtoOf name \<Rightarrow> map_of (membersOf st name @ membersOf st ''Object'') key
    | ClassOf name \<Rightarrow> map_of (staticsOf st name @ membersOf st ''Function'' @ membersOf st ''Object'') key)"

definition truthySlot :: "slot option \<Rightarrow> bool" where
  "truthySlot s = (case s of Some (Fn a) \<Rightarrow> True | Some (NotFn b) \<Rightarrow> b | None \<Rightarrow> False)"

text \<open>\<open>setProperty(target, name, value)\<close> on a native.\<close>

definition setProperty :: "target \<Rightarrow> string \<Rightarrow> slot \<Rightarrow> core \<Rightarrow> core" where
  "setProperty t key v st = (case t of
      ProtoOf name \<Rightarrow> (case map_of (globalContext st) name of
          Some n \<Rightarrow> st\<lparr>globalContext := assign name (n\<lparr>members := assign key v (members n)\<rparr>) (globalContext st)\<rparr>
        | None \<Rightarrow> st)
    | ClassOf name \<Rightarrow> (case map_of (globalContext st) name of
          Some n \<Rightarrow> st\<lparr>globalContext := assign name (n\<lparr>statics := assign key v (statics n)\<rparr>) (globalContext st)\<rparr>
        | None \<Rightarrow> st))"

subsection \<open>Chainables\<close>

definition wrapWithChainableResult :: "nat \<Rightarrow> core \<Rightarrow> nat \<times> core" where
  "wrapWithChainableResult fn st =
     newFunction (noFunction\<lparr>fnCode := ChainableResult (fnCode (fnAt st fn))\<rparr>) st"

definition disambiguateMethod :: "string \<Rightarrow> core \<Rightarrow> nat \<times> core" where
  "disambiguateMethod methodName st =
     newFunction (noFunction\<lparr>fnCode := Disambiguate methodName, fnDisambiguate := True\<rparr>) st"

definition setObjectChainableOnNamespace :: "nat \<Rightarrow> string \<Rightarrow> nat \<Rightarrow> core \<Rightarrow> core" where
  "setObjectChainableOnNamespace sugarNamespace methodName fn st =
     (if map_of (chProto (chainableAt st sugarNamespace)) methodName = None
      then updateChainable sugarNamespace (\<lambda>c. c\<lparr>chProto := assign methodName fn (chProto c)\<rparr>) st
      else st)"

definition mapObjectChainableToAllNamespaces :: "string \<Rightarrow> nat \<Rightarrow> core \<Rightarrow> core" where
  "mapObjectChainableToAllNamespaces methodName fn st =
     foldl (\<lambda>s sugarNamespace. setObjectChainableOnNamespace sugarNamespace methodName fn s)
       st (map snd (namespacesByName st))"

definition mapObjectChainablesToNamespace :: "nat \<Rightarrow> core \<Rightarrow> core" where
  "mapObjectChainablesToNamespace sugarNamespace st = (case map_of (sugar st) ''Object'' of
      None \<Rightarrow> st
    | Some object \<Rightarrow> foldl (\<lambda>s (methodName, val). setObjectChainableOnNamespace sugarNamespace methodName val s)
        st (chProto (chainableAt st object)))"

text \<open>
  \<open>defineChainableMethod(sugarNamespace, methodName, fn)\<close>. \<open>existing\<close> is
  \<open>dcp[methodName]\<close>, read through \<open>Object.prototype\<close>. The namespace is
  \<open>undefined\<close> (\<open>None\<close>) when \<open>mapNativeToChainable\<close> is called for a name that has
  no namespace: the default chainable is written first, then \<open>sugarNamespace.prototype\<close>
  throws.
\<close>

definition defineChainableMethod :: "nat option \<Rightarrow> string \<Rightarrow> nat \<Rightarrow> unit step" where
  "defineChainableMethod sugarNamespace methodName fn st =
     (let (wrapped, st1) = wrapWithChainableResult fn st;
          inheritedSlot = map_of (membersOf st1 ''Object'') methodName;
          existing = (case map_of (chProto (chainableAt st1 0)) methodName of
              Some a \<Rightarrow> Some (Fn a)
            | None \<Rightarrow> inheritedSlot);
          collision = (truthySlot existing \<and> existing \<noteq> inheritedSlot);
          marked = (case existing of Some (Fn a) \<Rightarrow> fnDisambiguate (fnAt st1 a) | _ \<Rightarrow> False);
          st2 = (if \<not> truthySlot existing \<or> \<not> marked
                 then (if collision
                       then (let (d, s) = disambiguateMethod methodName st1
                             in updateChainable 0 (\<lambda>c. c\<lparr>chProto := assign methodName d (chProto c)\<rparr>) s)
                       else updateChainable 0 (\<lambda>c. c\<lparr>chProto := assign methodName wrapped (chProto c)\<rparr>) st1)
                 else st1)
      in case sugarNamespace of
           None \<Rightarrow> (Inl EngineTypeError, st2)
         | Some ns \<Rightarrow>
             (let st3 = updateChainable ns (\<lambda>c. c\<lparr>chProto := assign methodName wrapped (chProto c)\<rparr>) st2
              in (Inr (), if map_of (sugar st3) ''Object'' = Some ns
                          then mapObjectChainableToAllNamespaces methodName wrapped st3
                          else st3)))"

definition nativeMethodProhibited :: "string \<Rightarrow> bool" where
  "nativeMethodProhibited methodName =
     (methodName = ''constructor'' \<or> methodName = ''valueOf'' \<or> methodName = ''__proto__'')"

text \<open>\<open>mapNativeToChainable(name, methodNames)\<close>; without \<open>methodNames\<close> the own
  property names of the native prototype are taken.\<close>

definition mapNativeToChainable :: "string \<Rightarrow> string list option \<Rightarrow> unit step" where
  "mapNativeToChainable name methodNames st =
     (case map_of (globalContext st) name of
        None \<Rightarrow> (Inl EngineTypeError, st)
      | Some n \<Rightarrow>
          forEachProperty (\<lambda>methodName s.
              if nativeMethodProhibited methodName then (Inr (), s)
              else (case readTarget s (ProtoOf name) methodName of
                  Some (Fn fn) \<Rightarrow> defineChainableMethod (map_of (namespacesByName st) name) methodName fn s
                | _ \<Rightarrow> (Inr (), s)))
            (case methodNames of Some names \<Rightarrow> names | None \<Rightarrow> map fst (members n)) st)"

subsection \<open>\<open>createNamespace\<close> and \<open>setupGlobal\<close>\<close>

definition createNamespace :: "string \<Rightarrow> nat step" where
  "createNamespace name st =
     (let sugarNamespace = length (chainables st);
          st1 = st\<lparr>chainables := chainables st @ [getNewChainableClass name]\<rparr>;
          st2 = st1\<lparr>namespacesByName := assign name sugarNamespace (namespacesByName st1),
                    namespacesByClassString :=
                      assign (''[object '' @ name @ '']'') sugarNamespace (namespacesByClassString st1)\<rparr>
      in case mapNativeToChainable name None st2 of
           (Inl e, st3) \<Rightarrow> (Inl e, st3)
         | (Inr u, st3) \<Rightarrow>
             (let st4 = mapObjectChainablesToNamespace sugarNamespace st3
              in (Inr sugarNamespace, st4\<lparr>sugar := assign name sugarNamespace (sugar st4)\<rparr>)))"

definition NATIVE_NAMES :: "string list" where
  "NATIVE_NAMES = [''Object'', ''Number'', ''String'', ''Array'', ''Date'', ''RegExp'', ''Function'']"

text \<open>The module as it is loaded when no \<open>Sugar\<close> global exists yet: the variables
  are initialised, \<open>DefaultChainable\<close> is made, and \<open>setupGlobal\<close> creates the
  namespaces of the natives. The state of the host is its functions and its globals.\<close>

definition loadModule :: "fobj list \<Rightarrow> (string \<times> native) list \<Rightarrow> core" where
  "loadModule fs globals = \<lparr> fobjs = fs, chainables = [getNewChainableClass ''Chainable''],
     namespacesByName = [], namespacesByClassString = [], sugar = [],
     globalContext = globals, allowObjectPrototype = False \<rparr>"

definition setupGlobal :: "unit step" where
  "setupGlobal st = forEachProperty (\<lambda>name s. case createNamespace name s of
       (Inl e, s') \<Rightarrow> (Inl e, s')
     | (Inr ns, s') \<Rightarrow> (Inr (), s')) NATIVE_NAMES st"

subsection \<open>\<open>extend\<close>\<close>

text \<open>
  The options of \<open>extend\<close>: \<open>methods\<close>, \<open>except\<close> and \<open>namespaces\<close> are arrays when
  they are given; an element of \<open>except\<close> or \<open>namespaces\<close> is a method name or a global
  constructor. \<open>disabled\<close> are the flags \<open>f\<close> with \<open>opts[f] === false\<close>, and
  \<open>objectPrototypeOption\<close> is given when \<open>typeof opts.objectPrototype === 'boolean'\<close>.
  \<open>defineMethods\<close> calls \<open>extend\<close> with a method name for \<open>opts\<close>: a string has
  none of these properties, which is \<open>noOptions\<close>.
\<close>

datatype element = Name string | Global string

record opts =
  methodsOption :: "string list option"
  exceptOption :: "element list option"
  namespacesOption :: "element list option"
  disabled :: "string list"
  objectPrototypeOption :: "bool option"

definition noOptions :: opts where
  "noOptions = \<lparr> methodsOption = None, exceptOption = None, namespacesOption = None,
     disabled = [], objectPrototypeOption = None \<rparr>"

definition truthyElement :: "element \<Rightarrow> bool" where
  "truthyElement el = (case el of Name s \<Rightarrow> s \<noteq> [] | Global g \<Rightarrow> True)"

text \<open>The loop \<open>for (var i = 0, el; el = arr[i]; i++)\<close> stops at the first falsy
  element.\<close>

definition arrayOptionExists :: "element list option \<Rightarrow> element \<Rightarrow> bool" where
  "arrayOptionExists arr val = (case arr of
      Some els \<Rightarrow> val \<in> set (takeWhile truthyElement els)
    | None \<Rightarrow> False)"

definition arrayOptionExcludes :: "element list option \<Rightarrow> element \<Rightarrow> bool" where
  "arrayOptionExcludes arr val = (arr \<noteq> None \<and> \<not> arrayOptionExists arr val)"

definition objectRestricted :: "core \<Rightarrow> bool \<Rightarrow> string \<Rightarrow> target \<Rightarrow> bool" where
  "objectRestricted st isObject name t =
     (isObject \<and> (case t of ProtoOf n \<Rightarrow> True | ClassOf n \<Rightarrow> False) \<and>
      (\<not> allowObjectPrototype st \<or> name = ''get'' \<or> name = ''set''))"

definition disallowedByFlags :: "core \<Rightarrow> opts \<Rightarrow> string \<Rightarrow> target \<Rightarrow> string list option \<Rightarrow> bool" where
  "disallowedByFlags st opts methodName t flags =
     (if \<not> truthySlot (readTarget st t methodName) \<or> flags = None then False
      else list_ex (\<lambda>flag. flag \<in> set (disabled opts)) (case flags of Some fl \<Rightarrow> fl | None \<Rightarrow> []))"

definition namespaceIsExcepted :: "opts \<Rightarrow> string \<Rightarrow> bool" where
  "namespaceIsExcepted opts name =
     (arrayOptionExists (exceptOption opts) (Global name) \<or>
      arrayOptionExcludes (namespacesOption opts) (Global name))"

definition methodIsExcepted :: "opts \<Rightarrow> string \<Rightarrow> bool" where
  "methodIsExcepted opts methodName = arrayOptionExists (exceptOption opts) (Name methodName)"

definition canExtend :: "core \<Rightarrow> opts \<Rightarrow> bool \<Rightarrow> string \<Rightarrow> nat \<Rightarrow> target \<Rightarrow> bool" where
  "canExtend st opts isObject methodName method t =
     (\<not> objectRestricted st isObject methodName t \<and>
      \<not> disallowedByFlags st opts methodName t (fnFlags (fnAt st method)) \<and>
      \<not> methodIsExcepted opts methodName)"

definition extendNative :: "target \<Rightarrow> table \<Rightarrow> bool \<Rightarrow> bool \<Rightarrow> core \<Rightarrow> core" where
  "extendNative t source polyfill override st =
     foldl (\<lambda>s (name, method).
         if polyfill \<and> \<not> override \<and> truthySlot (readTarget s t name) then s
         else setProperty t name method s) st source"

text \<open>The value of \<open>method.instance\<close> as a property value.\<close>

definition instanceSlot :: "fobj \<Rightarrow> slot" where
  "instanceSlot f = (case fnInstance f of Some (Some a) \<Rightarrow> Fn a | _ \<Rightarrow> NotFn False)"

text \<open>The methods the loop of \<open>extend\<close> visits: those named by \<open>opts.methods\<close>, looked
  up in the namespace (\<open>None\<close> when there is no such method), or all of them.\<close>

definition candidates :: "chainable \<Rightarrow> opts \<Rightarrow> (string \<times> nat option) list" where
  "candidates ns opts = (case methodsOption opts of
      Some names \<Rightarrow> map (\<lambda>methodName. (methodName, map_of (chMethods ns) methodName)) names
    | None \<Rightarrow> map (\<lambda>(methodName, method). (methodName, Some method)) (chMethods ns))"

definition instanceMethods :: "core \<Rightarrow> opts \<Rightarrow> bool \<Rightarrow> string \<Rightarrow> (string \<times> nat option) list \<Rightarrow> table" where
  "instanceMethods st opts isObject name cs =
     foldl (\<lambda>acc (methodName, method). case method of
         None \<Rightarrow> acc
       | Some m \<Rightarrow>
           if fnInstance (fnAt st m) \<noteq> None \<and> canExtend st opts isObject methodName m (ProtoOf name)
           then assign methodName (instanceSlot (fnAt st m)) acc else acc) [] cs"

definition staticMethods :: "core \<Rightarrow> opts \<Rightarrow> bool \<Rightarrow> string \<Rightarrow> (string \<times> nat option) list \<Rightarrow> table" where
  "staticMethods st opts isObject name cs =
     foldl (\<lambda>acc (methodName, method). case method of
         None \<Rightarrow> acc
       | Some m \<Rightarrow>
           if fnStatic (fnAt st m) \<and> canExtend st opts isObject methodName m (ClassOf name)
           then assign methodName (Fn m) acc else acc) [] cs"

text \<open>\<open>extend(opts)\<close> of the namespace at \<open>sugarNamespace\<close>. The result is \<open>True\<close>
  for \<open>Sugar\<close> and \<open>False\<close> for \<open>undefined\<close>.\<close>

definition extend :: "nat \<Rightarrow> opts \<Rightarrow> bool step" where
  "extend sugarNamespace opts st =
     (let name = chName (chainableAt st sugarNamespace);
          isObject = (name = ''Object'')
      in case map_of (globalContext st) name of
           None \<Rightarrow> (Inl EngineTypeError, st)
         | Some nativeClass \<Rightarrow>
             if namespaceIsExcepted opts name then (Inr False, st)
             else
               (let st1 = (case objectPrototypeOption opts of
                       Some b \<Rightarrow> (if isObject then st\<lparr>allowObjectPrototype := b\<rparr> else st)
                     | None \<Rightarrow> st);
                    cs = candidates (chainableAt st1 sugarNamespace) opts;
                    st2 = extendNative (ClassOf name) (staticMethods st1 opts isObject name cs) False False st1;
                    st3 = extendNative (ProtoOf name) (instanceMethods st1 opts isObject name cs) False False st2
                in (Inr True,
                    if methodsOption opts = None
                    then updateChainable sugarNamespace (\<lambda>c. c\<lparr>chActive := True\<rparr>) st3
                    else st3)))"

text \<open>\<open>Sugar(arg)\<close>, which is also \<open>Sugar.extend(arg)\<close>.\<close>

definition sugarExtend :: "opts \<Rightarrow> unit step" where
  "sugarExtend arg st = forEachProperty (\<lambda>(name, sugarNamespace) s.
       if map_of (namespacesByName s) name = None then (Inr (), s)
       else (case extend sugarNamespace arg s of
           (Inl e, s') \<Rightarrow> (Inl e, s')
         | (Inr r, s') \<Rightarrow> (Inr (), s'))) (sugar st) st"

subsection \<open>Defining methods\<close>

definition STATIC :: nat where
  "STATIC = 1"

definition INSTANCE :: nat where
  "INSTANCE = 2"

text \<open>\<open>type & flag\<close> for a flag of one bit.\<close>

definition hasFlag :: "nat \<Rightarrow> nat \<Rightarrow> bool" where
  "hasFlag type flag = ((type div flag) mod 2 = 1)"

definition wrapMethodWithArguments :: "nat \<Rightarrow> bool \<Rightarrow> core \<Rightarrow> nat \<times> core" where
  "wrapMethodWithArguments fn instance st =
     (let startCollect = int (fnLength (fnAt st fn)) - 1 - (if instance then 1 else 0)
      in newFunction (noFunction\<lparr>fnCode := WithArguments (fnCode (fnAt st fn)) startCollect instance\<rparr>) st)"

text \<open>\<open>wrapInstanceMethodFixed(fn)\<close>: the \<open>switch\<close> has no default, so that the
  result is \<open>undefined\<close> for a function of six parameters or more.\<close>

definition wrapInstanceMethodFixed :: "nat \<Rightarrow> core \<Rightarrow> nat option \<times> core" where
  "wrapInstanceMethodFixed fn st =
     (let n = fnLength (fnAt st fn);
          closure = (\<lambda>k. (let (a, s) = newFunction
                              (noFunction\<lparr>fnCode := InstanceFixed (fnCode (fnAt st fn)) k, fnLength := k\<rparr>) st
                          in (Some a, s)))
      in if n = 0 \<or> n = 1 then closure 0
         else if n = 2 then closure 1
         else if n = 3 then closure 2
         else if n = 4 then closure 3
         else if n = 5 then closure 4
         else (None, st))"

definition wrapInstanceMethod :: "nat \<Rightarrow> bool \<Rightarrow> core \<Rightarrow> nat option \<times> core" where
  "wrapInstanceMethod fn args st =
     (if args then (let (a, s) = wrapMethodWithArguments fn True st in (Some a, s))
      else wrapInstanceMethodFixed fn st)"

definition setMethod :: "nat \<Rightarrow> string \<Rightarrow> nat \<Rightarrow> unit step" where
  "setMethod sugarNamespace methodName method st =
     (let st1 = updateChainable sugarNamespace (\<lambda>c. c\<lparr>chMethods := assign methodName method (chMethods c)\<rparr>) st
      in case fnInstance (fnAt st1 method) of
           Some (Some instance) \<Rightarrow> defineChainableMethod (Some sugarNamespace) methodName instance st1
         | _ \<Rightarrow> (Inr (), st1))"

text \<open>The body of the loop of \<open>defineMethods\<close>, for one entry of \<open>methods\<close>.\<close>

definition defineMethod :: "nat \<Rightarrow> nat \<Rightarrow> bool \<Rightarrow> string list option \<Rightarrow> string \<times> nat \<Rightarrow> unit step" where
  "defineMethod sugarNamespace type args flags entry st =
     (let methodName = fst entry;
          method = snd entry;
          (staticMethod, st1) = (if args then wrapMethodWithArguments method False st else (method, st));
          st2 = (case flags of
              Some fl \<Rightarrow> updateFunction staticMethod (\<lambda>f. f\<lparr>fnFlags := Some fl\<rparr>) st1
            | None \<Rightarrow> st1);
          st3 = (if hasFlag type INSTANCE \<and> instanceSlot (fnAt st2 method) = NotFn False
                 then (let (instanceMethod, s) = wrapInstanceMethod method args st2
                       in updateFunction staticMethod (\<lambda>f. f\<lparr>fnInstance := Some instanceMethod\<rparr>) s)
                 else st2);
          st4 = (if hasFlag type STATIC
                 then updateFunction staticMethod (\<lambda>f. f\<lparr>fnStatic := True\<rparr>) st3
                 else st3)
      in case setMethod sugarNamespace methodName staticMethod st4 of
           (Inl e, st5) \<Rightarrow> (Inl e, st5)
         | (Inr u, st5) \<Rightarrow>
             if chActive (chainableAt st5 sugarNamespace)
             then (case extend sugarNamespace noOptions st5 of
                 (Inl e, st6) \<Rightarrow> (Inl e, st6)
               | (Inr r, st6) \<Rightarrow> (Inr (), st6))
             else (Inr (), st5))"

definition defineMethods ::
  "nat \<Rightarrow> (string \<times> nat) list \<Rightarrow> nat \<Rightarrow> bool \<Rightarrow> string list option \<Rightarrow> unit step" where
  "defineMethods sugarNamespace methods type args flags =
     forEachProperty (defineMethod sugarNamespace type args flags) methods"

text \<open>The members of a namespace that \<open>defineWithOptionCollect\<close> makes.\<close>

definition defineStatic :: "nat \<Rightarrow> (string \<times> nat) list \<Rightarrow> string list option \<Rightarrow> unit step" where
  "defineStatic sugarNamespace methods flags = defineMethods sugarNamespace methods STATIC False flags"

definition defineInstance :: "nat \<Rightarrow> (string \<times> nat) list \<Rightarrow> string list option \<Rightarrow> unit step" where
  "defineInstance sugarNamespace methods flags = defineMethods sugarNamespace methods INSTANCE False flags"

definition defineInstanceAndStatic :: "nat \<Rightarrow> (string \<times> nat) list \<Rightarrow> string list option \<Rightarrow> unit step" where
  "defineInstanceAndStatic sugarNamespace methods flags =
     defineMethods sugarNamespace methods (INSTANCE + STATIC) False flags"

definition defineStaticWithArguments :: "nat \<Rightarrow> (string \<times> nat) list \<Rightarrow> string list option \<Rightarrow> unit step" where
  "defineStaticWithArguments sugarNamespace methods flags = defineMethods sugarNamespace methods STATIC True flags"

definition defineInstanceWithArguments :: "nat \<Rightarrow> (string \<times> nat) list \<Rightarrow> string list option \<Rightarrow> unit step" where
  "defineInstanceWithArguments sugarNamespace methods flags = defineMethods sugarNamespace methods INSTANCE True flags"

subsection \<open>Calling a function\<close>

definition undefineds :: "nat \<Rightarrow> datum list" where
  "undefineds n = replicate n (Plain VUndefined)"

text \<open>\<open>this.raw\<close>.\<close>

fun rawOf :: "environment \<Rightarrow> datum \<Rightarrow> error + datum" where
  "rawOf env (Chainable c raw) = Inr raw"
| "rawOf env (Collected xs) = Inr (Plain VUndefined)"
| "rawOf env (Plain v) = (case getProp (envHeap env) (Val v) ''raw'' of
       Returns (Val w) \<Rightarrow> Inr (Plain w)
     | Returns a \<Rightarrow> Inr (Plain VUndefined)
     | Throws \<Rightarrow> Inl EngineTypeError
     | Exhausted \<Rightarrow> Inl EngineTypeError)"

fun classToStringOf :: "environment \<Rightarrow> datum \<Rightarrow> string" where
  "classToStringOf env (Plain v) = classToString (envHeap env) (Val v)"
| "classToStringOf env (Collected xs) = ''[object Array]''"
| "classToStringOf env (Chainable c raw) = ''[object Object]''"

text \<open>\<open>new sugarNamespace(raw)[methodName]\<close>: the prototype of the class, then
  \<open>Object.prototype\<close>.\<close>

definition lookupChainable :: "core \<Rightarrow> nat \<Rightarrow> string \<Rightarrow> slot option" where
  "lookupChainable st c methodName = (case map_of (chProto (chainableAt st c)) methodName of
      Some a \<Rightarrow> Some (Fn a)
    | None \<Rightarrow> map_of (membersOf st ''Object'') methodName)"

text \<open>The namespace that the function of \<open>disambiguateMethod\<close> finds for \<open>raw\<close>:
  the one of its class when \<open>raw != null\<close>, and \<open>Sugar.Object\<close> when there is none.\<close>

definition resolveNamespace :: "environment \<Rightarrow> core \<Rightarrow> datum \<Rightarrow> nat option" where
  "resolveNamespace env st raw =
     (let sugarNamespace =
            (if raw \<noteq> Plain VUndefined \<and> raw \<noteq> Plain VNull
             then map_of (namespacesByClassString st) (classToStringOf env raw) else None)
      in case sugarNamespace of
           Some ns \<Rightarrow> Some ns
         | None \<Rightarrow> map_of (sugar st) ''Object'')"

text \<open>\<open>throw new TypeError('Cannot resolve namespace for ' + raw)\<close>.\<close>

definition cannotResolve :: "environment \<Rightarrow> datum \<Rightarrow> error" where
  "cannotResolve env raw = (case envToString env raw of
      Inl e \<Rightarrow> e
    | Inr s \<Rightarrow> TypeError (''Cannot resolve namespace for '' @ s))"

text \<open>
  A call \<open>fn.apply(this, args)\<close> of the function with the given code. The first
  argument bounds the depth of nested calls; \<open>None\<close> is a call that needs more.
\<close>

primrec callFn :: "nat \<Rightarrow> environment \<Rightarrow> core \<Rightarrow> code \<Rightarrow> datum \<Rightarrow> datum list \<Rightarrow> (error + datum) option" where
  "callFn 0 env st c this args = None"
| "callFn (Suc n) env st c this args = (case c of
      Host i \<Rightarrow> Some (envCall env i this args)
    | InstanceFixed fn k \<Rightarrow>
        callFn n env st fn (Plain VUndefined) (this # take k (args @ undefineds k))
    | WithArguments fn startCollect instance \<Rightarrow>
        callFn n env st fn this
          ((if instance then [this] else [])
           @ take (nat startCollect) (args @ undefineds (nat startCollect))
           @ [Collected (drop (nat startCollect) args)])
    | ChainableResult fn \<Rightarrow> (case rawOf env this of
          Inl e \<Rightarrow> Some (Inl e)
        | Inr raw \<Rightarrow> (case callFn n env st fn raw args of
              Some (Inr result) \<Rightarrow> Some (Inr (Chainable 0 result))
            | r \<Rightarrow> r))
    | Disambiguate methodName \<Rightarrow> (case rawOf env this of
          Inl e \<Rightarrow> Some (Inl e)
        | Inr raw \<Rightarrow> (case resolveNamespace env st raw of
              None \<Rightarrow> Some (Inl EngineTypeError)
            | Some sugarNamespace \<Rightarrow> (case lookupChainable st sugarNamespace methodName of
                  Some (Fn fn) \<Rightarrow>
                    if fnDisambiguate (fnAt st fn) then Some (Inl (cannotResolve env raw))
                    else callFn n env st (fnCode (fnAt st fn)) this args
                | _ \<Rightarrow> Some (Inl EngineTypeError)))))"

text \<open>\<open>obj[methodName](...args)\<close> on a chainable object.\<close>

definition callMethod :: "nat \<Rightarrow> environment \<Rightarrow> core \<Rightarrow> datum \<Rightarrow> string \<Rightarrow> datum list \<Rightarrow> (error + datum) option" where
  "callMethod n env st obj methodName args = (case obj of
      Chainable c raw \<Rightarrow> (case lookupChainable st c methodName of
          Some (Fn fn) \<Rightarrow> callFn n env st (fnCode (fnAt st fn)) obj args
        | _ \<Rightarrow> Some (Inl EngineTypeError))
    | _ \<Rightarrow> Some (Inl EngineTypeError))"

section \<open>Measures used in the proofs\<close>

text \<open>
  The addresses of the heap that are not on the stack, and the room left on the stack:
  the stack check of \<open>iterateWithCyclicCheck\<close> only starts once the stack holds two
  values, so two more pushes are counted. \<open>budget\<close> is the number of nested calls that
  an operand may still need.
\<close>

definition liveRefs :: "heap \<Rightarrow> operand list \<Rightarrow> nat set" where
  "liveRefs h stack = {r. r < length h \<and> Val (VRef r) \<notin> set stack}"

definition slack :: "heap \<Rightarrow> operand list \<Rightarrow> nat" where
  "slack h stack = card (liveRefs h stack) + (2 - length stack)"

definition budget :: "heap \<Rightarrow> operand \<Rightarrow> operand list \<Rightarrow> nat" where
  "budget h a stack = (case a of
      Val (VRef r) \<Rightarrow> (if r < length h then 4 * slack h stack + 5 else 1)
    | Val v \<Rightarrow> 1
    | Arr vs \<Rightarrow> 4 * slack h stack + 3
    | ArrArr vss \<Rightarrow> 4 * slack h stack + 4)"

text \<open>\<open>below r r'\<close>: the outcome \<open>r\<close> ran out of budget or is \<open>r'\<close>. More budget never
  changes a result.\<close>

definition below :: "'a outcome \<Rightarrow> 'a outcome \<Rightarrow> bool" where
  "below r r' = (r = Exhausted \<or> r = r')"

text \<open>What holds of a memoized closure after any sequence of calls.\<close>

definition memoInv :: "(string \<Rightarrow> 'v outcome) \<Rightarrow> 'v memo \<Rightarrow> bool" where
  "memoInv fn m = (length (memoEntries m) \<le> memoCounter m \<and> memoCounter m \<le> INTERNAL_MEMOIZE_LIMIT
     \<and> list_all (\<lambda>(k, v). fn k = Returns v) (memoEntries m))"

text \<open>
  Two relations between a state of the module and a later one. \<open>protoOnly\<close>: only
  function objects were added and prototypes of chainable classes written; the registry,
  the globals and the methods of every class are as before. \<open>keepsFunctions\<close>: the
  function objects that existed are as before.
\<close>

definition protoOnly :: "core \<Rightarrow> core \<Rightarrow> bool" where
  "protoOnly st st' = (namespacesByName st' = namespacesByName st
     \<and> namespacesByClassString st' = namespacesByClassString st
     \<and> sugar st' = sugar st
     \<and> globalContext st' = globalContext st
     \<and> allowObjectPrototype st' = allowObjectPrototype st
     \<and> map chMethods (chainables st') = map chMethods (chainables st)
     \<and> map chName (chainables st') = map chName (chainables st)
     \<and> map chActive (chainables st') = map chActive (chainables st)
     \<and> take (length (fobjs st)) (fobjs st') = fobjs st)"

definition keepsFunctions :: "core \<Rightarrow> core \<Rightarrow> bool" where
  "keepsFunctions st st' = (take (length (fobjs st)) (fobjs st') = fobjs st)"

section \<open>The same object graph up to insertion order\<close>

text \<open>
  Two values are structurally equal up to insertion order when the objects that can be
  reached from them correspond one to one. The correspondence is given by the list
  \<open>ps\<close> of the pairs \<open>(r, r')\<close> of corresponding addresses, \<open>r\<close> in the heap
  \<open>h\<close> and \<open>r'\<close> in the heap \<open>h'\<close> (which may be \<open>h\<close> itself: two objects of one
  heap); no address occurs twice on either side. \<open>sameObject f ob ob'\<close>: the object
  \<open>ob'\<close> is \<open>ob\<close> with its references renamed by \<open>f\<close> and its own properties possibly
  inserted in another order (the same keys with the same values; an object has no key
  twice). \<open>sameFrom ps h h'\<close> asks this of the two objects of every pair whose first
  object can be serialized, and that every object such an object refers to is paired as
  well. Of a pair of objects that cannot be serialized it only asks the same class: what
  such an object holds is never read. Objects that are in no pair are not constrained.
\<close>

fun renameV :: "(nat \<Rightarrow> nat) \<Rightarrow> jsval \<Rightarrow> jsval" where
  "renameV f (VRef r) = VRef (f r)"
| "renameV f v = v"

fun renameO :: "(nat \<Rightarrow> nat) \<Rightarrow> operand \<Rightarrow> operand" where
  "renameO f (Val v) = Val (renameV f v)"
| "renameO f (Arr vs) = Arr (map (renameV f) vs)"
| "renameO f (ArrArr vss) = ArrArr (map (map (renameV f)) vss)"

definition sameObject :: "(nat \<Rightarrow> nat) \<Rightarrow> jsobj \<Rightarrow> jsobj \<Rightarrow> bool" where
  "sameObject f ob ob' = (cls ob' = cls ob \<and> plainProto ob' = plainProto ob \<and>
     toStringRes ob' = toStringRes ob \<and>
     distinct (map fst (props ob)) \<and> distinct (map fst (props ob')) \<and>
     set (props ob') = set (map (\<lambda>(k, v). (k, renameV f v)) (props ob)))"

definition renaming :: "(nat \<times> nat) list \<Rightarrow> nat \<Rightarrow> nat" where
  "renaming ps r = (case map_of ps r of Some r' \<Rightarrow> r' | None \<Rightarrow> r)"

text \<open>Every reference among the values is the first address of a pair.\<close>

definition refsIn :: "(nat \<times> nat) list \<Rightarrow> jsval list \<Rightarrow> bool" where
  "refsIn ps vs = list_all (\<lambda>v. case v of VRef r \<Rightarrow> r \<in> fst ` set ps | _ \<Rightarrow> True) vs"

definition serializableAt :: "heap \<Rightarrow> nat \<Rightarrow> bool" where
  "serializableAt h r = isSerializable h (Val (VRef r)) (classToString h (Val (VRef r)))"

definition sameFrom :: "(nat \<times> nat) list \<Rightarrow> heap \<Rightarrow> heap \<Rightarrow> bool" where
  "sameFrom ps h h' = (distinct (map fst ps) \<and> distinct (map snd ps) \<and>
     list_all (\<lambda>(r, r'). cls (deref h' r') = cls (deref h r) \<and> plainProto (deref h' r') = plainProto (deref h r) \<and>
        (serializableAt h r \<longrightarrow>
           sameObject (renaming ps) (deref h r) (deref h' r') \<and> refsIn ps (map snd (props (deref h r))))) ps)"

text \<open>
  The notions below serve the proofs. \<open>sameGraph f h h'\<close>: two whole heaps hold the same
  objects along a renaming \<open>f\<close> of all addresses. \<open>agreeOn D h g\<close>: the heap \<open>g\<close> shows
  serialization what \<open>h\<close> shows it at the addresses of \<open>D\<close>, and \<open>D\<close> holds what its
  serializable objects refer to. \<open>stableSer ser\<close>: a call of \<open>ser\<close> only adds to the
  table of references, and a second call with the table it left, or a longer one, gives
  the same token and leaves the table as it is.
\<close>

definition sameGraph :: "(nat \<Rightarrow> nat) \<Rightarrow> heap \<Rightarrow> heap \<Rightarrow> bool" where
  "sameGraph f h h' = (inj f \<and> length h' = length h \<and> (\<forall>r. (f r < length h) = (r < length h)) \<and>
     (\<forall>r. r < length h \<longrightarrow> sameObject f (h ! r) (h' ! f r)))"

fun mapOutcome :: "('a \<Rightarrow> 'b) \<Rightarrow> 'a outcome \<Rightarrow> 'b outcome" where
  "mapOutcome g (Returns x) = Returns (g x)"
| "mapOutcome g Throws = Throws"
| "mapOutcome g Exhausted = Exhausted"

text \<open>The table of references of an outcome, renamed.\<close>

definition renameAcc :: "(nat \<Rightarrow> nat) \<Rightarrow> 'a \<times> jsval list \<Rightarrow> 'a \<times> jsval list" where
  "renameAcc f p = (fst p, map (renameV f) (snd p))"

definition valIn :: "nat set \<Rightarrow> jsval \<Rightarrow> bool" where
  "valIn D v = (case v of VRef r \<Rightarrow> r \<in> D | _ \<Rightarrow> True)"

definition agreeOn :: "nat set \<Rightarrow> heap \<Rightarrow> heap \<Rightarrow> bool" where
  "agreeOn D h g = (\<forall>r\<in>D. cls (deref g r) = cls (deref h r) \<and> plainProto (deref g r) = plainProto (deref h r) \<and>
      (serializableAt h r \<longrightarrow> props (deref g r) = props (deref h r) \<and> toStringRes (deref g r) = toStringRes (deref h r) \<and>
         (\<forall>k c. (k, VRef c) \<in> set (props (deref h r)) \<longrightarrow> c \<in> D)))"

definition stableSer :: "(operand \<Rightarrow> jsval list \<Rightarrow> operand list \<Rightarrow> (token \<times> jsval list) outcome) \<Rightarrow> bool" where
  "stableSer ser = (\<forall>x r st t r1. ser x r st = Returns (t, r1) \<longrightarrow>
     (\<exists>ys. r1 = r @ ys) \<and> (\<forall>zs. ser x (r1 @ zs) st = Returns (t, r1 @ zs)))"

section \<open>Example data\<close>

text \<open>A plain object with default \<open>valueOf\<close> and \<open>toString\<close>, a host object (a DOM
  node, say), and a heap with two plain objects that differ in insertion order only,
  two host objects, and an object that refers to the first plain object only.\<close>

definition plainObject :: "(string \<times> jsval) list \<Rightarrow> jsobj" where
  "plainObject ps = \<lparr> cls = ''Object'', props = ps, hidden = [], inherited = [], plainProto = True,
     valueOfRes = Self, toStringRes = Some ''[object Object]'', setItems = [], mapItems = [] \<rparr>"

definition hostObject :: "string \<Rightarrow> jsobj" where
  "hostObject c = \<lparr> cls = c, props = [], hidden = [], inherited = [], plainProto = False,
     valueOfRes = Self, toStringRes = Some (''[object '' @ c @ '']''), setItems = [], mapItems = [] \<rparr>"

definition exampleHeap :: heap where
  "exampleHeap =
    [plainObject [(''a'', VNum (NInt 1)), (''b'', VRef 2)],
     plainObject [(''b'', VRef 2), (''a'', VNum (NInt 1))],
     hostObject ''HTMLDivElement'',
     hostObject ''HTMLDivElement'',
     plainObject [(''z'', VRef 0)]]"

text \<open>An array of the example: its elements, as a literal would build it.\<close>

definition arrayOf :: "jsval list \<Rightarrow> jsobj" where
  "arrayOf vs = arrayObject [] (zip [0..<length vs] vs) (length vs)"

definition nums :: "int list \<Rightarrow> jsval list" where
  "nums xs = map (\<lambda>x. VNum (NInt x)) xs"

text \<open>The array \<open>[10, 20, 30, 40]\<close>, alone in a heap.\<close>

definition exampleArray :: heap where
  "exampleArray = [arrayOf (nums [10, 20, 30, 40])]"

definition exampleModule :: "string list moduleState" where
  "exampleModule = snd (createFormatMatcher \<lparr> objects = exampleArray, memos = [] \<rparr>)"

text \<open>
  A host for the core: eight functions of the caller (the number is the address, the
  second argument of \<open>hostFunction\<close> the \<open>length\<close>), the seven native constructors and
  \<open>Boolean\<close> with a few members, and the module loaded in it. A function of the
  example environment returns what it was called with: its number, its \<open>this\<close> and its
  arguments. \<open>objectMethods\<close>: the instance methods \<open>get\<close> and \<open>has\<close> defined on the
  namespace \<open>Object\<close> (address 1). \<open>misconfigured\<close>: \<open>foo\<close> defined on the namespaces
  \<open>Array\<close> (4) and \<open>String\<close> (3), and the disambiguation function that the default
  chainable then holds (address 15) assigned to \<open>Sugar.String.prototype.foo\<close>.
\<close>

definition exampleFunctions :: "fobj list" where
  "exampleFunctions = [hostFunction 0 0, hostFunction 1 1, hostFunction 2 1, hostFunction 3 0,
     hostFunction 4 2, hostFunction 5 6, hostFunction 6 1, hostFunction 7 3]"

definition exampleGlobals :: "(string \<times> native) list" where
  "exampleGlobals = [
     (''Object'', \<lparr> statics = [(''keys'', Fn 1)], members = [(''toString'', Fn 0)] \<rparr>),
     (''Number'', \<lparr> statics = [], members = [] \<rparr>),
     (''String'', \<lparr> statics = [], members = [(''length'', NotFn False), (''trim'', Fn 3)] \<rparr>),
     (''Array'', \<lparr> statics = [], members = [(''length'', NotFn False), (''push'', Fn 2)] \<rparr>),
     (''Date'', \<lparr> statics = [], members = [] \<rparr>),
     (''RegExp'', \<lparr> statics = [], members = [] \<rparr>),
     (''Function'', \<lparr> statics = [], members = [] \<rparr>),
     (''Boolean'', \<lparr> statics = [], members = [] \<rparr>)]"

definition exampleCore :: core where
  "exampleCore = snd (setupGlobal (loadModule exampleFunctions exampleGlobals))"


definition exampleEnv :: environment where
  "exampleEnv = \<lparr> envCall = (\<lambda>i this args. Inr (Collected (Plain (VNum (NInt (int i))) # this # args))),
     envToString = (\<lambda>d. case d of Plain v \<Rightarrow> Inr (primToString v) | _ \<Rightarrow> Inl HostError),
     envHeap = [] \<rparr>"


definition objectMethods :: core where
  "objectMethods = snd (defineInstance 1 [(''get'', 4), (''has'', 6)] None exampleCore)"

definition misconfigured :: core where
  "misconfigured =
     (let st1 = snd (defineInstance 4 [(''foo'', 4)] None exampleCore);
          st2 = snd (defineInstance 3 [(''foo'', 7)] None st1)
      in updateChainable 3 (\<lambda>c. c\<lparr>chProto := assign ''foo'' 15 (chProto c)\<rparr>) st2)"

section \<open>Verified properties\<close>

subsection \<open>Evaluation lemmas\<close>

lemma fuelBound_Suc: "fuelBound h = Suc (Suc (4 * length h + 14))"
  by (simp add: fuelBound_def)

lemma natToString_0: "natToString 0 = ''0''"
  by code_simp

lemma isEqual_zero_negzero:
  "isEqual (Suc n) h (Val (VNum (NInt 0))) (Val (VNum NNegZero)) stack = Returns False"
  by (simp add: isEqualBody_def numEq_def isZero_def)

lemma isEqual_nan:
  "isEqual (Suc n) h (Val (VNum NNaN)) (Val (VNum NNaN)) stack =
     stringsEqual h (Val (VNum NNaN)) (Val (VNum NNaN))"
  by (simp add: isEqualBody_def numEq_def isZero_def classToString_def classOf_def
      isSerializable_def isKnownType_def knownTypes_def objectIsEqual_def typeofV_def
      valueOf_def isObjectType_def)

lemma stringsEqual_nan: "stringsEqual h (Val (VNum NNaN)) (Val (VNum NNaN)) = Returns True"
  by (simp add: stringsEqual_def valueOf_def toString_def toStringV_def)

lemma serialize_zero:
  "serializeInternal (Suc n) h (Val (VNum (NInt 0))) refs stack = Returns (TStr ''number0'', refs)"
  by (simp add: serializeInternalBody_def isPrimitive_def typeofV_def isRealNaN_def primToString_def numToString_def
      natToString_0 digitChar_def)

lemma serialize_negzero:
  "serializeInternal (Suc n) h (Val (VNum NNegZero)) refs stack = Returns (TStr ''number0'', refs)"
  by (simp add: serializeInternalBody_def isPrimitive_def typeofV_def isRealNaN_def primToString_def numToString_def)

lemma serialize_args_zero:
  "serializeInternal (Suc (Suc n)) h (Arr [VNum (NInt 0)]) refs [] =
     Returns (TStr ''object[object Array]0number00'', refs)"
  by (simp add: serializeInternalBody_def isPrimitive_def typeofV_def isRealNaN_def primToString_def numToString_def
      natToString_0 digitChar_def classToString_def classOf_def isSerializable_def
      isKnownType_def knownTypes_def isObjectType_def serializeDeep_def
      iterateWithCyclicCheck_def sortedProps_def getKeys_def ownProps_def indexKeys_def
      allProps_def iterNext_def onStack_def serializeProp_def tokenString_def toString_def
      joinArray_def elemToString_def toStringV_def)

lemma serialize_args_negzero:
  "serializeInternal (Suc (Suc n)) h (Arr [VNum NNegZero]) refs [] =
     Returns (TStr ''object[object Array]0number00'', refs)"
  by (simp add: serializeInternalBody_def isPrimitive_def typeofV_def isRealNaN_def primToString_def numToString_def
      natToString_0 digitChar_def classToString_def classOf_def isSerializable_def
      isKnownType_def knownTypes_def isObjectType_def serializeDeep_def
      iterateWithCyclicCheck_def sortedProps_def getKeys_def ownProps_def indexKeys_def
      allProps_def iterNext_def onStack_def serializeProp_def tokenString_def toString_def
      joinArray_def elemToString_def toStringV_def)

lemma call_memoized_zero:
  "callHashedMemoized fn collectArguments limit h st [VNum (NInt 0)] =
   (case map_of (hmMap st) ''object[object Array]0number00'' of
      Some res \<Rightarrow> Returns (res, st)
    | None \<Rightarrow>
        (let st2 = (if limit = Some (hmCounter st) then createHashedMemoizeFunction else st)
         in Returns (fn [VNum (NInt 0)],
              st2\<lparr>hmCounter := hmCounter st2 + 1,
                  hmMap := (''object[object Array]0number00'', fn [VNum (NInt 0)]) # hmMap st2\<rparr>)))"
  unfolding callHashedMemoized_def collectArguments_def fuelBound_Suc serialize_args_zero
  by (simp add: tokenString_def Let_def split: option.split)

lemma call_memoized_negzero:
  "callHashedMemoized fn collectArguments limit h st [VNum NNegZero] =
   (case map_of (hmMap st) ''object[object Array]0number00'' of
      Some res \<Rightarrow> Returns (res, st)
    | None \<Rightarrow>
        (let st2 = (if limit = Some (hmCounter st) then createHashedMemoizeFunction else st)
         in Returns (fn [VNum NNegZero],
              st2\<lparr>hmCounter := hmCounter st2 + 1,
                  hmMap := (''object[object Array]0number00'', fn [VNum NNegZero]) # hmMap st2\<rparr>)))"
  unfolding callHashedMemoized_def collectArguments_def fuelBound_Suc serialize_args_negzero
  by (simp add: tokenString_def Let_def split: option.split)

subsection \<open>Termination on every heap\<close>

lemma finite_liveRefs: "finite (liveRefs h stack)"
  by (simp add: liveRefs_def)

lemma liveRefs_push: "liveRefs h (stack @ [x]) \<subseteq> liveRefs h stack"
  by (auto simp: liveRefs_def)

lemma slack_push_le: "slack h (stack @ [x]) \<le> slack h stack"
proof -
  have "card (liveRefs h (stack @ [x])) \<le> card (liveRefs h stack)"
    by (rule card_mono[OF finite_liveRefs liveRefs_push])
  then show ?thesis by (simp add: slack_def)
qed

lemma strictEq_ref_refl: "strictEq (Val (VRef r)) (Val (VRef r))"
  by simp

lemma slack_push_ref:
  assumes "\<not> onStack stack (Val (VRef r))" and "r < length h"
  shows "slack h (stack @ [Val (VRef r)]) < slack h stack"
proof (cases "length stack > 1")
  case True
  with assms(1) have "\<not> list_ex (\<lambda>s. strictEq s (Val (VRef r))) stack"
    by (simp add: onStack_def)
  then have notin: "Val (VRef r) \<notin> set stack"
    by (auto simp: list_ex_iff)
  with assms(2) have mem: "r \<in> liveRefs h stack" by (simp add: liveRefs_def)
  have "liveRefs h (stack @ [Val (VRef r)]) \<subseteq> liveRefs h stack - {r}"
    by (auto simp: liveRefs_def)
  then have "card (liveRefs h (stack @ [Val (VRef r)])) \<le> card (liveRefs h stack - {r})"
    by (intro card_mono) (simp_all add: finite_liveRefs)
  also have "\<dots> < card (liveRefs h stack)"
    by (rule card_Diff1_less[OF finite_liveRefs mem])
  finally show ?thesis using True by (simp add: slack_def)
next
  case False
  have "card (liveRefs h (stack @ [Val (VRef r)])) \<le> card (liveRefs h stack)"
    by (rule card_mono[OF finite_liveRefs liveRefs_push])
  with False show ?thesis by (simp add: slack_def)
qed

lemma budget_child_val:
  assumes "\<not> onStack stack (Val v)" and "4 * slack h stack + 2 \<le> n"
  shows "budget h (Val v) (stack @ [Val v]) \<le> n"
proof (cases v)
  case (VRef r)
  show ?thesis
  proof (cases "r < length h")
    case True
    from slack_push_ref[OF assms(1)[unfolded VRef] True]
    have "slack h (stack @ [Val (VRef r)]) < slack h stack" .
    with assms(2) True VRef show ?thesis by (simp add: budget_def)
  next
    case False
    with assms(2) VRef show ?thesis by (simp add: budget_def)
  qed
qed (use assms(2) in \<open>simp_all add: budget_def\<close>)

lemma budget_child_arr:
  assumes "4 * slack h stack + 3 \<le> n"
  shows "budget h (Arr vs) (stack @ [Arr vs]) \<le> n"
  using assms slack_push_le[of h stack "Arr vs"] by (simp add: budget_def)

lemma obind_ne_iff:
  "obind m f \<noteq> Exhausted \<longleftrightarrow> m \<noteq> Exhausted \<and> (\<forall>x. m = Returns x \<longrightarrow> f x \<noteq> Exhausted)"
  by (cases m) auto

lemma iterProps_not_exhausted:
  assumes "\<And>key val acc. (key, val) \<in> set kvs \<Longrightarrow> fn key val (onStack stack val) (stack @ [val]) acc \<noteq> Exhausted"
  shows "iterProps fn stack kvs acc \<noteq> Exhausted"
  using assms
proof (induction kvs arbitrary: acc)
  case Nil
  then show ?case by simp
next
  case (Cons kv kvs)
  obtain key val where kv: "kv = (key, val)" by (cases kv)
  show ?case unfolding kv iterProps.simps obind_ne_iff
    using Cons kv by (auto simp: iterNext_def)
qed

lemma hasIn_ne: "hasIn h b key \<noteq> Exhausted"
  by (simp add: hasIn_def)

lemma getProp_ne: "getProp h b key \<noteq> Exhausted"
  by (simp add: getProp_def split: option.split)

lemma valueOf_ne: "valueOf h a \<noteq> Exhausted"
  by (simp add: valueOf_def split: operand.split jsval.split hostret.split)

lemma collect_ne: "(\<And>x. x \<in> set xs \<Longrightarrow> x \<noteq> Exhausted) \<Longrightarrow> collect xs \<noteq> Exhausted"
  by (induction xs) (auto simp: obind_ne_iff)

lemma toStringV_ne: "toStringV h v \<noteq> Exhausted"
  by (simp add: toStringV_def split: jsval.split option.split)

lemma elemToString_ne: "elemToString h v \<noteq> Exhausted"
  by (simp add: elemToString_def toStringV_ne)

lemma joinArray_ne: "joinArray h vs \<noteq> Exhausted"
  unfolding joinArray_def obind_ne_iff
  by (auto intro!: collect_ne simp: elemToString_ne elemToString_ne[symmetric])

lemma toString_ne: "toString h a \<noteq> Exhausted"
  by (cases a) (auto simp: toString_def toStringV_ne joinArray_ne joinArray_ne[symmetric] obind_ne_iff intro!: collect_ne)

lemma stringsEqual_ne: "stringsEqual h a b \<noteq> Exhausted"
  unfolding stringsEqual_def by (simp add: obind_ne_iff valueOf_ne toString_ne)

lemma equalProp_ne:
  assumes "\<And>bval. \<not> cyc \<Longrightarrow> isEq val bval stack \<noteq> Exhausted"
  shows "equalProp isEq h b key val cyc stack acc \<noteq> Exhausted"
  unfolding equalProp_def using assms
  by (simp add: obind_ne_iff hasIn_ne getProp_ne)

lemma objectIsEqual_ne:
  assumes "\<And>key val bval. (key, val) \<in> set (ownProps h a) \<Longrightarrow> \<not> onStack stack val \<Longrightarrow> isEq val bval (stack @ [val]) \<noteq> Exhausted"
  shows "objectIsEqual isEq h a b aClass stack \<noteq> Exhausted"
proof -
  have it: "iterProps (equalProp isEq h b) stack (ownProps h a) acc \<noteq> Exhausted" for acc
    by (rule iterProps_not_exhausted, rule equalProp_ne) (use assms in blast)
  show ?thesis
    unfolding objectIsEqual_def iterateWithCyclicCheck_def
    by (simp add: obind_ne_iff valueOf_ne getProp_ne stringsEqual_ne it)
qed

lemma serializeProp_ne:
  assumes "\<And>refs. \<not> cyc \<Longrightarrow> ser val refs stack \<noteq> Exhausted"
  shows "serializeProp ser key val cyc stack acc \<noteq> Exhausted"
  unfolding serializeProp_def using assms by (simp add: obind_ne_iff)

lemma serializeDeep_ne:
  assumes "\<And>key val refs. (key, val) \<in> set (sortedProps h obj) \<Longrightarrow> \<not> onStack stack val \<Longrightarrow> ser val refs (stack @ [val]) \<noteq> Exhausted"
  shows "serializeDeep ser h obj refs stack \<noteq> Exhausted"
  unfolding serializeDeep_def iterateWithCyclicCheck_def if_True
  by (rule iterProps_not_exhausted, rule serializeProp_ne) (use assms in blast)


lemma class_Set_ref: "classOf h a = ''Set'' \<Longrightarrow> \<exists>r. a = Val (VRef r) \<and> r < length h"
  by (auto simp: classOf_def deref_def noObject_def split: operand.splits jsval.splits if_splits)

lemma class_Map_ref: "classOf h a = ''Map'' \<Longrightarrow> \<exists>r. a = Val (VRef r) \<and> r < length h"
  by (auto simp: classOf_def deref_def noObject_def split: operand.splits jsval.splits if_splits)

lemma ownProps_children:
  assumes "(key, val) \<in> set (ownProps h a)" and "\<not> onStack stack val" and "budget h a stack \<le> Suc n"
  shows "budget h val (stack @ [val]) \<le> n"
proof (cases a)
  case (Val v)
  show ?thesis
  proof (cases v)
    case (VRef r)
    show ?thesis
    proof (cases "r < length h")
      case True
      from assms(1) Val VRef obtain w where w: "val = Val w"
        by (auto simp: ownProps_def)
      from assms(3) Val VRef True have "4 * slack h stack + 2 \<le> n" by (simp add: budget_def)
      from budget_child_val[OF assms(2)[unfolded w] this] w show ?thesis by simp
    next
      case False
      with assms(1) Val VRef show ?thesis by (simp add: ownProps_def deref_def noObject_def)
    qed
  qed (use assms(1) Val in \<open>simp_all add: ownProps_def\<close>)
next
  case (Arr vs)
  from assms(1) Arr obtain w where w: "val = Val w"
    by (auto simp: ownProps_def dest!: set_zip_rightD)
  from assms(3) Arr have "4 * slack h stack + 2 \<le> n" by (simp add: budget_def)
  from budget_child_val[OF assms(2)[unfolded w] this] w show ?thesis by simp
next
  case (ArrArr vss)
  from assms(1) ArrArr obtain ws where w: "val = Arr ws"
    by (auto simp: ownProps_def dest!: set_zip_rightD)
  from assms(3) ArrArr have "4 * slack h stack + 3 \<le> n" by (simp add: budget_def)
  from budget_child_arr[OF this] w show ?thesis by simp
qed

lemma isEqualBody_ne:
  assumes "\<And>x y st. budget h x st \<le> n \<Longrightarrow> isEq x y st \<noteq> Exhausted"
    and "budget h a stack \<le> Suc n"
  shows "isEqualBody isEq h a b stack \<noteq> Exhausted"
proof -
  have obj: "objectIsEqual isEq h a b c stack \<noteq> Exhausted" for c
    by (rule objectIsEqual_ne, rule assms(1), rule ownProps_children[OF _ _ assms(2)])
  have setc: "isEq (setToArray h a) (setToArray h b) stack \<noteq> Exhausted"
    if "isSet a (classToString h a)"
  proof -
    from that have "classOf h a = ''Set''" by (simp add: isSet_def isClass_def classToString_def)
    from class_Set_ref[OF this] obtain r where r: "a = Val (VRef r)" "r < length h" by blast
    with assms(2) have "budget h (setToArray h a) stack \<le> n"
      by (simp add: budget_def setToArray_def)
    then show ?thesis by (rule assms(1))
  qed
  have mapc: "isEq (mapToArray h a) (mapToArray h b) stack \<noteq> Exhausted"
    if "isMap a (classToString h a)"
  proof -
    from that have "classOf h a = ''Map''" by (simp add: isMap_def isClass_def classToString_def)
    from class_Map_ref[OF this] obtain r where r: "a = Val (VRef r)" "r < length h" by blast
    with assms(2) have "budget h (mapToArray h a) stack \<le> n"
      by (simp add: budget_def mapToArray_def)
    then show ?thesis by (rule assms(1))
  qed
  show ?thesis
    unfolding isEqualBody_def
    using obj setc mapc by (auto simp: obind_ne_iff toString_ne)
qed

lemma budget_pos: "0 < budget h a stack"
  by (simp add: budget_def split: operand.split jsval.split)

lemma isEqual_terminates:
  "budget h a stack \<le> n \<Longrightarrow> isEqual n h a b stack \<noteq> Exhausted"
proof (induction n arbitrary: a b stack)
  case 0
  with budget_pos[of h a stack] show ?case by simp
next
  case (Suc n)
  have "isEqualBody (isEqual n h) h a b stack \<noteq> Exhausted"
    by (rule isEqualBody_ne[OF Suc.IH Suc.prems])
  then show ?case by simp
qed

lemma sortedProps_val:
  "(key, val) \<in> set (sortedProps h obj) \<Longrightarrow> val = Val VUndefined \<or> val \<in> snd ` set (allProps h obj)"
  by (force simp: sortedProps_def split: option.splits dest!: map_of_SomeD)

lemma allProps_val:
  assumes "val \<in> snd ` set (allProps h obj)"
  shows "(\<exists>w. val = Val w) \<or> (\<exists>vss ws. obj = ArrArr vss \<and> val = Arr ws)"
  using assms
  by (cases obj) (auto simp: allProps_def ownProps_def split: jsval.splits dest!: set_zip_rightD)

lemma sortedProps_children:
  assumes "(key, val) \<in> set (sortedProps h obj)" and "\<not> onStack stack val" and "budget h obj stack \<le> Suc n"
  shows "budget h val (stack @ [val]) \<le> n"
proof -
  have empty: "sortedProps h obj = []" if "budget h obj stack = 1"
    using that
    by (auto simp: budget_def sortedProps_def getKeys_def ownProps_def deref_def noObject_def
        split: operand.splits jsval.splits if_splits)
  from sortedProps_val[OF assms(1)] allProps_val[of val h obj]
  consider w where "val = Val w" | vss ws where "obj = ArrArr vss" "val = Arr ws"
    by blast
  then show ?thesis
  proof cases
    case 1
    from assms(1) empty have "budget h obj stack \<noteq> 1" by auto
    with assms(3) have "4 * slack h stack + 2 \<le> n"
      by (auto simp: budget_def split: operand.splits jsval.splits if_splits)
    from budget_child_val[OF assms(2)[unfolded 1] this] 1 show ?thesis by simp
  next
    case 2
    with assms(3) have "4 * slack h stack + 3 \<le> n" by (simp add: budget_def)
    from budget_child_arr[OF this] 2 show ?thesis by simp
  qed
qed

lemma serializeInternalBody_ne:
  assumes "\<And>x r st. budget h x st \<le> n \<Longrightarrow> ser x r st \<noteq> Exhausted"
    and "budget h obj stack \<le> Suc n"
  shows "serializeInternalBody ser h obj refs stack \<noteq> Exhausted"
proof -
  have deep: "serializeDeep ser h obj refs stack \<noteq> Exhausted"
    by (rule serializeDeep_ne, rule assms(1), rule sortedProps_children[OF _ _ assms(2)])
  show ?thesis
    unfolding serializeInternalBody_def
    using deep by (auto simp: obind_ne_iff toString_ne valueOf_ne split: option.split)
qed

lemma serializeInternal_terminates:
  "budget h obj stack \<le> n \<Longrightarrow> serializeInternal n h obj refs stack \<noteq> Exhausted"
proof (induction n arbitrary: obj refs stack)
  case 0
  with budget_pos[of h obj stack] show ?case by simp
next
  case (Suc n)
  have "serializeInternalBody (serializeInternal n h) h obj refs stack \<noteq> Exhausted"
    by (rule serializeInternalBody_ne[OF Suc.IH Suc.prems])
  then show ?case by simp
qed

lemma budget_root: "budget h a [] \<le> fuelBound h + k"
proof -
  have "card (liveRefs h []) \<le> card {..<length h}"
    by (rule card_mono) (auto simp: liveRefs_def)
  then have "slack h [] \<le> length h + 2" by (simp add: slack_def)
  then show ?thesis
    by (simp add: budget_def fuelBound_def split: operand.split jsval.split)
qed

lemma below_refl: "below r r"
  by (simp add: below_def)

lemma obind_below:
  assumes "below m m'" and "\<And>x. below (f x) (f' x)"
  shows "below (obind m f) (obind m' f')"
proof (cases m)
  case (Returns x)
  with assms(1) have "m' = Returns x" by (simp add: below_def)
  with Returns assms(2)[of x] show ?thesis by simp
qed (use assms(1) in \<open>auto simp: below_def\<close>)

lemma iterProps_below:
  assumes "\<And>key val cyc st acc. below (fn key val cyc st acc) (fn' key val cyc st acc)"
  shows "below (iterProps fn stack kvs acc) (iterProps fn' stack kvs acc)"
proof (induction kvs arbitrary: acc)
  case Nil
  show ?case by (simp add: below_refl)
next
  case (Cons kv kvs)
  obtain key val where kv: "kv = (key, val)" by (cases kv)
  show ?case unfolding kv iterProps.simps iterNext_def
    by (rule obind_below[OF assms Cons.IH])
qed

lemma equalProp_below:
  assumes "\<And>x y st. below (isEq x y st) (isEq' x y st)"
  shows "below (equalProp isEq h b key val cyc stack acc) (equalProp isEq' h b key val cyc stack acc)"
  unfolding equalProp_def
  by (auto intro!: obind_below below_refl assms)

lemma objectIsEqual_below:
  assumes "\<And>x y st. below (isEq x y st) (isEq' x y st)"
  shows "below (objectIsEqual isEq h a b c stack) (objectIsEqual isEq' h a b c stack)"
  unfolding objectIsEqual_def iterateWithCyclicCheck_def
  by (auto intro!: obind_below below_refl iterProps_below equalProp_below assms)

lemma isEqualBody_below:
  assumes "\<And>x y st. below (isEq x y st) (isEq' x y st)"
  shows "below (isEqualBody isEq h a b stack) (isEqualBody isEq' h a b stack)"
  unfolding isEqualBody_def
  by (auto intro!: below_refl objectIsEqual_below assms)

lemma isEqual_below_Suc: "below (isEqual n h a b stack) (isEqual (Suc n) h a b stack)"
proof (induction n arbitrary: a b stack)
  case 0
  show ?case by (simp add: below_def)
next
  case (Suc n)
  have "below (isEqualBody (isEqual n h) h a b stack) (isEqualBody (isEqual (Suc n) h) h a b stack)"
    by (rule isEqualBody_below) (rule Suc.IH)
  then show ?case by simp
qed

lemma serializeProp_below:
  assumes "\<And>x r st. below (ser x r st) (ser' x r st)"
  shows "below (serializeProp ser key val cyc stack acc) (serializeProp ser' key val cyc stack acc)"
  unfolding serializeProp_def
  by (auto intro!: obind_below below_refl assms)

lemma serializeInternalBody_below:
  assumes "\<And>x r st. below (ser x r st) (ser' x r st)"
  shows "below (serializeInternalBody ser h obj refs stack) (serializeInternalBody ser' h obj refs stack)"
proof -
  have deep: "below (serializeDeep ser h obj refs stack) (serializeDeep ser' h obj refs stack)"
    unfolding serializeDeep_def iterateWithCyclicCheck_def if_True
    by (rule iterProps_below, rule serializeProp_below) (rule assms)
  show ?thesis
    unfolding serializeInternalBody_def
    using deep by (auto intro!: below_refl obind_below)
qed

lemma serializeInternal_below_Suc:
  "below (serializeInternal n h obj refs stack) (serializeInternal (Suc n) h obj refs stack)"
proof (induction n arbitrary: obj refs stack)
  case 0
  show ?case by (simp add: below_def)
next
  case (Suc n)
  have "below (serializeInternalBody (serializeInternal n h) h obj refs stack)
          (serializeInternalBody (serializeInternal (Suc n) h) h obj refs stack)"
    by (rule serializeInternalBody_below) (rule Suc.IH)
  then show ?case by simp
qed

lemma isEqual_more_fuel:
  "isEqual n h a b stack \<noteq> Exhausted \<Longrightarrow> isEqual (n + k) h a b stack = isEqual n h a b stack"
proof (induction k)
  case 0
  show ?case by simp
next
  case (Suc k)
  from isEqual_below_Suc[of "n + k" h a b stack] Suc show ?case by (simp add: below_def)
qed

lemma serializeInternal_more_fuel:
  "serializeInternal n h obj refs stack \<noteq> Exhausted \<Longrightarrow>
   serializeInternal (n + k) h obj refs stack = serializeInternal n h obj refs stack"
proof (induction k)
  case 0
  show ?case by simp
next
  case (Suc k)
  from serializeInternal_below_Suc[of "n + k" h obj refs stack] Suc show ?case by (simp add: below_def)
qed


text \<open>
  Claim C9, as amended. \<open>equal\<close> and \<open>serialize\<close> return (a result or an exception)
  on every heap, cyclic or not, for every operand: with the budget \<open>fuelBound h\<close> of
  nested calls, or any larger one, neither runs out of budget, and a larger budget gives
  the same outcome, so the depth of the recursion is bounded by
  \<open>fuelBound h = 4 * (length h + 4)\<close>. The discipline that bounds it: \<open>next\<close> hands
  the callback the stack with the child pushed and the flag \<open>cyc\<close>, which is set when
  the stack, before the push, holds at least two values and one of them is the child.
  When \<open>cyc\<close> is set, the callback of \<open>serializeDeep\<close> adds the fixed sentinel
  \<open>CYC\<close> and that of \<open>objectIsEqual\<close> only counts the property, neither calling the
  recursion (the result does not depend on \<open>ser\<close>, \<open>isEq\<close>).
\<close>

theorem equal_and_serialize_terminate:
  "isEqual (fuelBound h + k) h x y [] \<noteq> Exhausted
   \<and> isEqual (fuelBound h + k) h x y [] = isEqual (fuelBound h) h x y []
   \<and> serializeInternal (fuelBound h + k) h x refs [] \<noteq> Exhausted
   \<and> serializeInternal (fuelBound h + k) h x refs [] = serializeInternal (fuelBound h) h x refs []
   \<and> equal h a b \<noteq> Exhausted
   \<and> serialize h obj refs \<noteq> Exhausted
   \<and> iterNext fn stack val key acc = fn key val (onStack stack val) (stack @ [val]) acc
   \<and> onStack stack val = (length stack > 1 \<and> list_ex (\<lambda>s. strictEq s val) stack)
   \<and> serializeProp ser key val True stack sacc = Returns (fst sacc @ ''CYC'', snd sacc)
   \<and> equalProp isEq h y key val True stack eacc = Returns (fst eacc, snd eacc + 1)"
proof -
  have e0: "isEqual (fuelBound h) h x y [] \<noteq> Exhausted" for x y
    using budget_root[of h x 0] by (intro isEqual_terminates) simp
  have s0: "serializeInternal (fuelBound h) h x refs [] \<noteq> Exhausted" for x
    using budget_root[of h x 0] by (intro serializeInternal_terminates) simp
  have e1: "isEqual (fuelBound h + k) h x y [] = isEqual (fuelBound h) h x y []"
    by (rule isEqual_more_fuel[OF e0])
  have s1: "serializeInternal (fuelBound h + k) h x refs [] = serializeInternal (fuelBound h) h x refs []"
    by (rule serializeInternal_more_fuel[OF s0])
  have c: "serializeProp ser key val True stack sacc = Returns (fst sacc @ ''CYC'', snd sacc)"
    by (simp add: serializeProp_def)
  have d: "equalProp isEq h y key val True stack eacc = Returns (fst eacc, snd eacc + 1)"
    by (simp add: equalProp_def)
  show ?thesis
    using e0 s0 e1 s1 c d by (simp add: equal_def serialize_def iterNext_def onStack_def)
qed

text \<open>
  The claim as stated fails: a child that is already on the stack is entered again
  while the stack holds fewer than two values. For the object \<open>o\<close> with
  \<open>o.self = o\<close>, the stack is \<open>[o]\<close> when \<open>o\<close> is met the second time; \<open>o\<close> is on
  it, yet \<open>cyc\<close> is not set, and the token shows two levels of \<open>self\<close> before the
  sentinel.
\<close>

theorem child_on_stack_counterexample:
  "list_ex (\<lambda>s. strictEq s (Val (VRef 0))) [Val (VRef 0)]
   \<and> \<not> onStack [Val (VRef 0)] (Val (VRef 0))
   \<and> serialize [plainObject [(''self'', VRef 0)]] (VRef 0) [] =
       Returns (TStr ''object[object Object]selfobject[object Object]selfobject[object Object]CYC[object Object][object Object][object Object]'', [])"
  by code_simp

subsection \<open>Serialization does not depend on insertion order\<close>

lemma sameGraph_deref:
  assumes "sameGraph f h h'"
  shows "cls (deref h' (f r)) = cls (deref h r)"
    and "plainProto (deref h' (f r)) = plainProto (deref h r)"
    and "toStringRes (deref h' (f r)) = toStringRes (deref h r)"
  using assms by (auto simp: sameGraph_def sameObject_def deref_def)

lemma renameV_inj: "inj f \<Longrightarrow> renameV f a = renameV f b \<longleftrightarrow> a = b"
  by (cases a; cases b) (auto dest: injD)

lemma renameV_prim [simp]:
  "renameV f v = VUndefined \<longleftrightarrow> v = VUndefined"
  "renameV f v = VNull \<longleftrightarrow> v = VNull"
  "renameV f v = VNum n \<longleftrightarrow> v = VNum n"
  "renameV f v = VBool b \<longleftrightarrow> v = VBool b"
  "renameV f v = VStr s \<longleftrightarrow> v = VStr s"
  by (cases v; auto)+

lemma strictEqV_rename: "inj f \<Longrightarrow> strictEqV (renameV f a) (renameV f b) = strictEqV a b"
  by (cases a; cases b) (auto dest: injD)

lemma strictEq_rename: "inj f \<Longrightarrow> strictEq (renameO f a) (renameO f b) = strictEq a b"
  by (cases a; cases b) (auto simp: strictEqV_rename)

lemma typeof_rename: "sameGraph f h h' \<Longrightarrow> typeof h' (renameO f obj) = typeof h obj"
  by (cases obj) (auto simp: typeofV_def sameGraph_deref split: jsval.split)

lemma classOf_rename: "sameGraph f h h' \<Longrightarrow> classOf h' (renameO f obj) = classOf h obj"
  by (cases obj) (auto simp: classOf_def sameGraph_deref split: jsval.split)

lemma classToString_rename: "sameGraph f h h' \<Longrightarrow> classToString h' (renameO f obj) = classToString h obj"
  by (simp add: classToString_def classOf_rename)

lemma renameO_Val_prim [simp]:
  "renameO f obj = Val VUndefined \<longleftrightarrow> obj = Val VUndefined"
  "renameO f obj = Val VNull \<longleftrightarrow> obj = Val VNull"
  "renameO f obj = Val (VNum n) \<longleftrightarrow> obj = Val (VNum n)"
  by (cases obj; auto)+

lemma isPrimitive_rename: "sameGraph f h h' \<Longrightarrow> isPrimitive h' (renameO f obj) = isPrimitive h obj"
  by (simp add: isPrimitive_def typeof_rename)

lemma isObjectType_rename: "sameGraph f h h' \<Longrightarrow> isObjectType h' (renameO f obj) = isObjectType h obj"
  by (simp add: isObjectType_def typeof_rename)

lemma isRealNaN_rename: "isRealNaN (renameO f obj) = isRealNaN obj"
  by (simp add: isRealNaN_def)

lemma isSerializable_rename:
  "sameGraph f h h' \<Longrightarrow> isSerializable h' (renameO f obj) c = isSerializable h obj c"
  using isObjectType_rename[of f h h' obj]
  by (cases obj)
    (auto simp: isSerializable_def isPlainObject_def sameGraph_deref
      split: jsval.splits)

lemma indexOf_rename:
  "inj f \<Longrightarrow> indexOf (map (renameV f) refs) (renameO f obj) = indexOf refs obj"
proof (induction refs)
  case Nil
  show ?case by simp
next
  case (Cons x xs)
  from Cons.prems have "strictEq (Val (renameV f x)) (renameO f obj) = strictEq (Val x) obj"
    using strictEq_rename[of f "Val x" obj] by simp
  with Cons show ?case by simp
qed

lemma toStringV_rename: "sameGraph f h h' \<Longrightarrow> toStringV h' (renameV f v) = toStringV h v"
  by (cases v) (auto simp: toStringV_def sameGraph_deref primToString_def)

lemma elemToString_rename: "sameGraph f h h' \<Longrightarrow> elemToString h' (renameV f v) = elemToString h v"
  by (simp add: elemToString_def toStringV_rename)

lemma joinArray_rename: "sameGraph f h h' \<Longrightarrow> joinArray h' (map (renameV f) vs) = joinArray h vs"
  by (simp add: joinArray_def elemToString_rename comp_def)

lemma toString_rename: "sameGraph f h h' \<Longrightarrow> toString h' (renameO f obj) = toString h obj"
  by (cases obj) (auto simp: toString_def toStringV_rename joinArray_rename comp_def)

lemma onStack_rename:
  "inj f \<Longrightarrow> onStack (map (renameO f) stack) (renameO f val) = onStack stack val"
  by (simp add: onStack_def list_ex_iff strictEq_rename)


lemma sort_distinct_set_eq:
  fixes xs ys :: "'a::linorder list"
  assumes "distinct xs" "distinct ys" "set xs = set ys"
  shows "sort xs = sort ys"
  by (rule sorted_distinct_set_unique) (use assms in simp_all)

lemma getKeys_ref: "getKeys h (Val (VRef r)) = map fst (props (deref h r))"
  by (simp add: getKeys_def ownProps_def comp_def case_prod_unfold)

lemma sameGraph_props:
  assumes "sameGraph f h h'"
  shows "distinct (map fst (props (deref h r)))"
    and "distinct (map fst (props (deref h' (f r))))"
    and "set (props (deref h' (f r))) = set (map (\<lambda>(k, v). (k, renameV f v)) (props (deref h r)))"
  using assms by (auto simp: sameGraph_def sameObject_def deref_def noObject_def)

lemma sortedKeys_rename:
  assumes "sameGraph f h h'"
  shows "sort (getKeys h' (renameO f obj)) = sort (getKeys h obj)"
proof (cases obj)
  case (Val v)
  show ?thesis
  proof (cases v)
    case (VRef r)
    have "fst ` set (props (deref h' (f r))) = fst ` set (props (deref h r))"
      unfolding sameGraph_props(3)[OF assms, of r] by (force simp: image_iff)
    then have "set (map fst (props (deref h' (f r)))) = set (map fst (props (deref h r)))"
      by simp
    from sort_distinct_set_eq[OF sameGraph_props(2)[OF assms, of r] sameGraph_props(1)[OF assms, of r] this]
    show ?thesis unfolding Val VRef renameO.simps renameV.simps getKeys_ref .
  qed (use Val in \<open>simp_all add: getKeys_def ownProps_def\<close>)
qed (simp_all add: getKeys_def ownProps_def map_fst_zip_take)

lemma map_of_zip_map:
  "key \<in> fst ` set (zip ks xs) \<Longrightarrow>
   map_of (zip ks (map g xs) @ e) key = map_option g (map_of (zip ks xs @ e') key)"
proof (induction xs arbitrary: ks)
  case Nil
  then show ?case by simp
next
  case (Cons x xs)
  show ?case
  proof (cases ks)
    case Nil
    with Cons.prems show ?thesis by simp
  next
    case (Cons k ks')
    show ?thesis
    proof (cases "key = k")
      case True
      with Cons show ?thesis by simp
    next
      case False
      with Cons Cons.prems have "key \<in> fst ` set (zip ks' xs)" by auto
      from Cons.IH[OF this] False Cons show ?thesis by simp
    qed
  qed
qed

lemma lookup_own_rename:
  assumes "sameGraph f h h'" and "key \<in> set (getKeys h obj)"
  shows "map_of (allProps h' (renameO f obj)) key =
         map_option (renameO f) (map_of (allProps h obj) key)"
proof (cases obj)
  case (Val v)
  show ?thesis
  proof (cases v)
    case (VRef r)
    let ?ps = "props (deref h r)" and ?ps' = "props (deref h' (f r))"
    from assms(2) Val VRef obtain w where w: "(key, w) \<in> set ?ps"
      by (auto simp: getKeys_ref)
    with sameGraph_props(3)[OF assms(1), of r] have w': "(key, renameV f w) \<in> set ?ps'"
      by force
    have a: "map_of ?ps key = Some w"
      using w sameGraph_props(1)[OF assms(1), of r] by simp
    have b: "map_of ?ps' key = Some (renameV f w)"
      using w' sameGraph_props(2)[OF assms(1), of r] by simp
    have c: "map_of (map (\<lambda>(k, v). (k, Val v)) (ps @ hs)) key = Some (Val x)"
      if "map_of ps key = Some x" for ps hs :: "(string \<times> jsval) list" and x
      using that by (induction ps) (auto split: if_splits)
    have d: "map_of (allProps h (Val (VRef r))) key = Some (Val w)"
      unfolding allProps_def operand.case jsval.case by (rule c[OF a])
    have e: "map_of (allProps h' (Val (VRef (f r)))) key = Some (Val (renameV f w))"
      unfolding allProps_def operand.case jsval.case by (rule c[OF b])
    from d e Val VRef show ?thesis by simp
  qed (use assms(2) Val in \<open>simp_all add: getKeys_def ownProps_def\<close>)
next
  case (Arr vs)
  have eq: "map Val (map (renameV f) vs) = map (renameO f) (map Val vs)" by simp
  from assms(2) Arr have "key \<in> fst ` set (zip (indexKeys (length vs)) (map Val vs))"
    by (simp add: getKeys_def ownProps_def)
  from map_of_zip_map[OF this] Arr show ?thesis
    unfolding allProps_def ownProps_def by (simp only: renameO.simps operand.case eq length_map)
next
  case (ArrArr vss)
  have eq: "map Arr (map (map (renameV f)) vss) = map (renameO f) (map Arr vss)" by simp
  from assms(2) ArrArr have "key \<in> fst ` set (zip (indexKeys (length vss)) (map Arr vss))"
    by (simp add: getKeys_def ownProps_def)
  from map_of_zip_map[OF this] ArrArr show ?thesis
    unfolding allProps_def ownProps_def by (simp only: renameO.simps operand.case eq length_map)
qed

lemma sortedProps_rename:
  assumes "sameGraph f h h'"
  shows "sortedProps h' (renameO f obj) = map (\<lambda>(k, v). (k, renameO f v)) (sortedProps h obj)"
proof -
  have "(case map_of (allProps h' (renameO f obj)) key of Some v \<Rightarrow> v | None \<Rightarrow> Val VUndefined)
      = renameO f (case map_of (allProps h obj) key of Some v \<Rightarrow> v | None \<Rightarrow> Val VUndefined)"
    if "key \<in> set (sort (getKeys h obj))" for key
    using lookup_own_rename[OF assms, of key obj] that by (simp split: option.split)
  then show ?thesis
    unfolding sortedProps_def sortedKeys_rename[OF assms] by simp
qed


lemma obind_mapOutcome:
  assumes "\<And>x. k' (g x) = mapOutcome g' (k x)"
  shows "obind (mapOutcome g m) k' = mapOutcome g' (obind m k)"
  by (cases m) (simp_all add: assms)

lemma iterProps_rename:
  assumes "inj f"
    and "\<And>key val cyc st acc. fn' key (renameO f val) cyc (map (renameO f) st) (renameAcc f acc)
           = mapOutcome (renameAcc f) (fn key val cyc st acc)"
  shows "iterProps fn' (map (renameO f) stack) (map (\<lambda>(k, v). (k, renameO f v)) kvs) (renameAcc f acc)
       = mapOutcome (renameAcc f) (iterProps fn stack kvs acc)"
proof (induction kvs arbitrary: acc)
  case Nil
  show ?case by simp
next
  case (Cons kv kvs)
  obtain key val where kv: "kv = (key, val)" by (cases kv)
  have step: "iterNext fn' (map (renameO f) stack) (renameO f val) key (renameAcc f acc)
      = mapOutcome (renameAcc f) (iterNext fn stack val key acc)"
    unfolding iterNext_def onStack_rename[OF assms(1)]
    using assms(2)[of key val "onStack stack val" "stack @ [val]" acc] by simp
  have "obind (mapOutcome (renameAcc f) (iterNext fn stack val key acc))
          (iterProps fn' (map (renameO f) stack) (map (\<lambda>(k, v). (k, renameO f v)) kvs))
      = mapOutcome (renameAcc f) (obind (iterNext fn stack val key acc) (iterProps fn stack kvs))"
    by (rule obind_mapOutcome) (rule Cons.IH)
  then show ?case
    unfolding kv by (simp add: step)
qed

lemma serializeProp_rename:
  assumes "\<And>x r st. ser' (renameO f x) (map (renameV f) r) (map (renameO f) st)
             = mapOutcome (renameAcc f) (ser x r st)"
  shows "serializeProp ser' key (renameO f val) cyc (map (renameO f) st) (renameAcc f acc)
       = mapOutcome (renameAcc f) (serializeProp ser key val cyc st acc)"
proof (cases cyc)
  case True
  then show ?thesis by (simp add: serializeProp_def renameAcc_def)
next
  case False
  have "obind (mapOutcome (renameAcc f) (ser val (snd acc) st))
          (\<lambda>r. Returns (fst acc @ key @ tokenString (fst r), snd r))
      = mapOutcome (renameAcc f) (obind (ser val (snd acc) st)
          (\<lambda>r. Returns (fst acc @ key @ tokenString (fst r), snd r)))"
    by (rule obind_mapOutcome) (simp add: renameAcc_def)
  with False show ?thesis
    by (simp add: serializeProp_def assms[symmetric]) (simp add: renameAcc_def)
qed

lemma serializable_ref_object:
  "isSerializable h (Val (VRef r)) (classToString h (Val (VRef r))) \<Longrightarrow> isObjectType h (Val (VRef r))"
  by (auto simp: isSerializable_def isPlainObject_def isKnownType_def knownTypes_def
      classToString_def classOf_def isObjectType_def typeofV_def)

lemma primToString_rename: "primToString (renameV f v) = primToString v"
  by (cases v) (simp_all add: primToString_def)

lemma serializeInternalBody_rename:
  assumes g: "sameGraph f h h'"
    and ser: "\<And>x r st. ser' (renameO f x) (map (renameV f) r) (map (renameO f) st)
             = mapOutcome (renameAcc f) (ser x r st)"
  shows "serializeInternalBody ser' h' (renameO f obj) (map (renameV f) refs) (map (renameO f) stack)
       = mapOutcome (renameAcc f) (serializeInternalBody ser h obj refs stack)"
proof -
  from g have inj: "inj f" by (simp add: sameGraph_def)
  note same = typeof_rename[OF g] classToString_rename[OF g] isPrimitive_rename[OF g]
    isObjectType_rename[OF g] isRealNaN_rename isSerializable_rename[OF g] toString_rename[OF g]
  have deepEq: "serializeDeep ser' h' (renameO f obj) (map (renameV f) refs) (map (renameO f) stack)
      = mapOutcome (renameAcc f) (serializeDeep ser h obj refs stack)"
  proof -
    have cb: "serializeProp ser' key (renameO f val) cyc (map (renameO f) st) (renameAcc f acc)
        = mapOutcome (renameAcc f) (serializeProp ser key val cyc st acc)" for key val cyc st acc
      by (rule serializeProp_rename) (rule ser)
    have "iterProps (serializeProp ser') (map (renameO f) stack)
            (map (\<lambda>(k, v). (k, renameO f v)) (sortedProps h obj)) (renameAcc f ([], refs))
        = mapOutcome (renameAcc f) (iterProps (serializeProp ser) stack (sortedProps h obj) ([], refs))"
      by (rule iterProps_rename[OF inj]) (rule cb)
    then show ?thesis
      unfolding serializeDeep_def iterateWithCyclicCheck_def if_True sortedProps_rename[OF g]
      by (simp add: renameAcc_def)
  qed
  have primPart: "(case renameO f obj of Val v \<Rightarrow> primToString v | _ \<Rightarrow> [])
      = (case obj of Val v \<Rightarrow> primToString v | _ \<Rightarrow> [])"
    by (cases obj) (simp_all add: primToString_rename)
  have refPart: "(case renameO f obj of Val v \<Rightarrow> [v] | _ \<Rightarrow> [])
      = map (renameV f) (case obj of Val v \<Rightarrow> [v] | _ \<Rightarrow> [])"
    by (cases obj) simp_all
  consider (prim) "isPrimitive h obj \<and> \<not> isRealNaN obj"
    | (host) "\<not> (isPrimitive h obj \<and> \<not> isRealNaN obj)" "\<not> isSerializable h obj (classToString h obj)"
    | (deep) "\<not> (isPrimitive h obj \<and> \<not> isRealNaN obj)" "isSerializable h obj (classToString h obj)" "isObjectType h obj"
    | (rest) "\<not> (isPrimitive h obj \<and> \<not> isRealNaN obj)" "isSerializable h obj (classToString h obj)" "\<not> isObjectType h obj"
    by blast
  then show ?thesis
  proof cases
    case prim
    then show ?thesis
      by (simp add: serializeInternalBody_def same renameAcc_def primPart)
  next
    case host
    from host show ?thesis
      by (simp add: serializeInternalBody_def same renameAcc_def refPart primPart
          indexOf_rename[OF inj] split: option.split)
  next
    case deep
    have "obind (mapOutcome (renameAcc f) (serializeDeep ser h obj refs stack))
            (\<lambda>r. obind (toString h obj) (\<lambda>s.
              Returns (TStr (typeof h obj @ classToString h obj @ fst r @ s), snd r)))
        = mapOutcome (renameAcc f) (obind (serializeDeep ser h obj refs stack)
            (\<lambda>r. obind (toString h obj) (\<lambda>s.
              Returns (TStr (typeof h obj @ classToString h obj @ fst r @ s), snd r))))"
      by (rule obind_mapOutcome) (cases "toString h obj"; simp add: renameAcc_def)
    with deep show ?thesis
      by (auto simp: serializeInternalBody_def same deepEq primPart renameAcc_def)
  next
    case rest
    from rest(2,3) serializable_ref_object[of h] have noref: "\<And>r. obj \<noteq> Val (VRef r)" by blast
    from rest(3) have noarr: "\<And>vs. obj \<noteq> Arr vs" "\<And>vss. obj \<noteq> ArrArr vss"
      by (auto simp: isObjectType_def)
    from noref noarr obtain v where v: "obj = Val v" "renameV f v = v" "\<And>r. v \<noteq> VRef r"
      by (cases obj; cases "case obj of Val v \<Rightarrow> v | _ \<Rightarrow> VNull") auto
    have "v \<noteq> VRef r" for r by (rule v(3))
    then show ?thesis
      unfolding v(1) renameO.simps v(2)
      by (cases v) (auto simp: serializeInternalBody_def isPrimitive_def typeofV_def isRealNaN_def
          classToString_def classOf_def isSerializable_def isKnownType_def knownTypes_def
          isPlainObject_def isObjectType_def valueOf_def toString_def toStringV_def
          renameAcc_def primToString_def)
  qed
qed

lemma serializeInternal_rename:
  assumes "sameGraph f h h'"
  shows "serializeInternal n h' (renameO f obj) (map (renameV f) refs) (map (renameO f) stack)
       = mapOutcome (renameAcc f) (serializeInternal n h obj refs stack)"
proof (induction n arbitrary: obj refs stack)
  case 0
  show ?case by simp
next
  case (Suc n)
  have "serializeInternalBody (serializeInternal n h') h' (renameO f obj) (map (renameV f) refs) (map (renameO f) stack)
       = mapOutcome (renameAcc f) (serializeInternalBody (serializeInternal n h) h obj refs stack)"
    by (rule serializeInternalBody_rename[OF assms]) (rule Suc.IH)
  then show ?case by simp
qed


lemma indexOf_Some:
  "indexOf refs el = Some i \<Longrightarrow> i < length refs \<and> strictEq (Val (refs ! i)) el"
proof (induction refs arbitrary: i)
  case Nil
  then show ?case by simp
next
  case (Cons x xs)
  then show ?case by (auto split: if_splits)
qed

lemma indexOf_append_Some: "indexOf refs el = Some i \<Longrightarrow> indexOf (refs @ later) el = Some i"
  by (induction refs arbitrary: i) (auto split: if_splits)

lemma indexOf_append_None:
  "indexOf refs (Val v) = None \<Longrightarrow> strictEqV v v \<Longrightarrow> indexOf (refs @ v # later) (Val v) = Some (length refs)"
  by (induction refs) (auto split: if_splits)

lemma host_token:
  assumes "\<not> isSerializable h (Val (VRef r)) (classToString h (Val (VRef r)))"
  shows "serializeInternal (Suc n) h (Val (VRef r)) refs stack =
     (case indexOf refs (Val (VRef r)) of
        None \<Rightarrow> Returns (TNum (length refs), refs @ [VRef r])
      | Some i \<Rightarrow> Returns (TNum i, refs))"
  using assms
  by (simp add: serializeInternalBody_def isPrimitive_def typeofV_def isRealNaN_def split: option.split)

lemma host_serialize:
  assumes "\<not> isSerializable h (Val (VRef r)) (classToString h (Val (VRef r)))"
  shows "\<exists>i refs'. serialize h (VRef r) refs = Returns (TNum i, refs')
     \<and> indexOf refs' (Val (VRef r)) = Some i
     \<and> (\<forall>later. serialize h (VRef r) (refs' @ later) = Returns (TNum i, refs' @ later))"
proof (cases "indexOf refs (Val (VRef r))")
  case None
  have a: "serialize h (VRef r) refs = Returns (TNum (length refs), refs @ [VRef r])"
    unfolding serialize_def fuelBound_Suc host_token[OF assms] using None by simp
  have b: "indexOf ((refs @ [VRef r]) @ later) (Val (VRef r)) = Some (length refs)" for later
    using indexOf_append_None[OF None, of later] by simp
  have c: "serialize h (VRef r) ((refs @ [VRef r]) @ later) = Returns (TNum (length refs), (refs @ [VRef r]) @ later)" for later
    unfolding serialize_def fuelBound_Suc host_token[OF assms] b by simp
  from a b[of "[]"] c show ?thesis by auto
next
  case (Some i)
  have a: "serialize h (VRef r) refs = Returns (TNum i, refs)"
    unfolding serialize_def fuelBound_Suc host_token[OF assms] using Some by simp
  have c: "serialize h (VRef r) (refs @ later) = Returns (TNum i, refs @ later)" for later
    unfolding serialize_def fuelBound_Suc host_token[OF assms] indexOf_append_Some[OF Some] by simp
  from a Some c show ?thesis by auto
qed

lemma hosts_distinct:
  assumes h1: "\<not> isSerializable h (Val (VRef r1)) (classToString h (Val (VRef r1)))"
    and h2: "\<not> isSerializable h (Val (VRef r2)) (classToString h (Val (VRef r2)))"
    and ne: "r1 \<noteq> r2"
  shows "\<exists>i j refs1 refs2.
       serialize h (VRef r1) refs = Returns (TNum i, refs1)
     \<and> i < length refs1 \<and> refs1 ! i = VRef r1
     \<and> serialize h (VRef r2) (refs1 @ later) = Returns (TNum j, refs2)
     \<and> i \<noteq> j
     \<and> serialize h (VRef r1) refs2 = Returns (TNum i, refs2)"
proof -
  from host_serialize[OF h1, of refs] obtain i refs1 where
    a: "serialize h (VRef r1) refs = Returns (TNum i, refs1)"
    and b: "indexOf refs1 (Val (VRef r1)) = Some i"
    and c: "\<And>later. serialize h (VRef r1) (refs1 @ later) = Returns (TNum i, refs1 @ later)"
    by blast
  from indexOf_Some[OF b] have i: "i < length refs1" "refs1 ! i = VRef r1"
    by (cases "refs1 ! i"; simp)+
  from host_serialize[OF h2, of "refs1 @ later"] obtain j refs2 where
    d: "serialize h (VRef r2) (refs1 @ later) = Returns (TNum j, refs2)"
    and e: "indexOf refs2 (Val (VRef r2)) = Some j"
    by blast
  have pre: "\<exists>ys. refs2 = refs1 @ ys"
    using d unfolding serialize_def fuelBound_Suc host_token[OF h2]
    by (auto split: option.splits)
  then obtain ys where ys: "refs2 = refs1 @ ys" by blast
  from indexOf_Some[OF e] have j: "refs2 ! j = VRef r2"
    by (cases "refs2 ! j"; simp)
  have "i \<noteq> j"
  proof
    assume "i = j"
    with i j ys ne show False by (simp add: nth_append)
  qed
  with a i d c[of ys] ys show ?thesis by auto
qed


lemma agree_typeofV: "agreeOn D h g \<Longrightarrow> valIn D v \<Longrightarrow> typeofV g v = typeofV h v"
  by (cases v) (auto simp: agreeOn_def valIn_def typeofV_def)

lemma agree_typeof: "agreeOn D h g \<Longrightarrow> valIn D v \<Longrightarrow> typeof g (Val v) = typeof h (Val v)"
  by (simp add: agree_typeofV)

lemma agree_classToString: "agreeOn D h g \<Longrightarrow> valIn D v \<Longrightarrow> classToString g (Val v) = classToString h (Val v)"
  by (cases v) (auto simp: agreeOn_def valIn_def classToString_def classOf_def)

lemma agree_isPrimitive: "agreeOn D h g \<Longrightarrow> valIn D v \<Longrightarrow> isPrimitive g (Val v) = isPrimitive h (Val v)"
  by (simp add: isPrimitive_def agree_typeofV)

lemma agree_isObjectType: "agreeOn D h g \<Longrightarrow> valIn D v \<Longrightarrow> isObjectType g (Val v) = isObjectType h (Val v)"
  by (simp add: isObjectType_def agree_typeofV)

lemma agree_isSerializable:
  "agreeOn D h g \<Longrightarrow> valIn D v \<Longrightarrow> isSerializable g (Val v) c = isSerializable h (Val v) c"
  using agree_isObjectType[of D h g v]
  by (cases v) (auto simp: isSerializable_def isPlainObject_def agreeOn_def valIn_def)

lemma map_of_own_first:
  "key \<in> fst ` set ps \<Longrightarrow> map_of (map (\<lambda>(k, v). (k, Val v)) (ps @ hs)) key = map_of (map (\<lambda>(k, v). (k, Val v)) ps) key"
  by (induction ps) (auto split: if_splits)

lemma sortedProps_ref:
  "sortedProps h (Val (VRef r)) =
     map (\<lambda>key. (key, (case map_of (map (\<lambda>(k, v). (k, Val v)) (props (deref h r))) key of Some v \<Rightarrow> v | None \<Rightarrow> Val VUndefined)))
       (sort (map fst (props (deref h r))))"
proof -
  have "map_of (allProps h (Val (VRef r))) key = map_of (map (\<lambda>(k, v). (k, Val v)) (props (deref h r))) key"
    if "key \<in> set (sort (map fst (props (deref h r))))" for key
  proof -
    from that have k: "key \<in> fst ` set (props (deref h r))" by simp
    show ?thesis
      unfolding allProps_def operand.case jsval.case by (rule map_of_own_first[OF k])
  qed
  then show ?thesis
    unfolding sortedProps_def getKeys_ref by simp
qed

lemma sortedProps_prim:
  assumes "\<And>r. v \<noteq> VRef r"
  shows "sortedProps h (Val v) = []"
proof (cases v)
  case (VRef r)
  with assms show ?thesis by blast
qed (simp_all add: sortedProps_def getKeys_def ownProps_def)

lemma agree_sortedProps:
  assumes "agreeOn D h g" "valIn D v" "isSerializable h (Val v) (classToString h (Val v))"
  shows "sortedProps g (Val v) = sortedProps h (Val v)"
proof (cases "\<exists>r. v = VRef r")
  case True
  then obtain r where r: "v = VRef r" by blast
  with assms have "props (deref g r) = props (deref h r)"
    by (simp add: agreeOn_def valIn_def serializableAt_def)
  then show ?thesis unfolding r sortedProps_ref by simp
next
  case False
  then show ?thesis by (simp add: sortedProps_prim)
qed

lemma agree_toString:
  assumes "agreeOn D h g" "valIn D v" "isSerializable h (Val v) (classToString h (Val v))"
  shows "toString g (Val v) = toString h (Val v)"
  using assms
  by (cases v) (auto simp: toString_def toStringV_def agreeOn_def valIn_def serializableAt_def)

lemma sortedProps_children_in:
  assumes "agreeOn D h g" "valIn D v" "isSerializable h (Val v) (classToString h (Val v))"
    and "(key, val) \<in> set (sortedProps h (Val v))"
  shows "\<exists>w. val = Val w \<and> valIn D w"
proof (cases "\<exists>r. v = VRef r")
  case True
  then obtain r where r: "v = VRef r" by blast
  from assms(4) obtain k where k: "k \<in> fst ` set (props (deref h r))"
    and val: "val = (case map_of (map (\<lambda>(k, v). (k, Val v)) (props (deref h r))) k of Some v \<Rightarrow> v | None \<Rightarrow> Val VUndefined)"
    unfolding r sortedProps_ref by auto
  show ?thesis
  proof (cases "map_of (map (\<lambda>(k, v). (k, Val v)) (props (deref h r))) k")
    case None
    then show ?thesis using val by (simp add: valIn_def)
  next
    case (Some x)
    then have "(k, x) \<in> set (map (\<lambda>(k, v). (k, Val v)) (props (deref h r)))"
      by (rule map_of_SomeD)
    then obtain w where w: "x = Val w" "(k, w) \<in> set (props (deref h r))" by auto
    have "valIn D w"
    proof (cases w)
      case (VRef c)
      with w assms(1,2,3) r show ?thesis
        by (auto simp: agreeOn_def valIn_def serializableAt_def)
    qed (simp_all add: valIn_def)
    with Some val w show ?thesis by simp
  qed
next
  case False
  with assms(4) show ?thesis by (simp add: sortedProps_prim)
qed

lemma obind_cong_strong: "m = m' \<Longrightarrow> (\<And>x. m' = Returns x \<Longrightarrow> f x = f' x) \<Longrightarrow> obind m f = obind m' f'"
  by (cases m') simp_all

lemma iterProps_agree:
  assumes "\<And>key val cyc st acc. (key, val) \<in> set kvs \<Longrightarrow> fn key val cyc st acc = fn' key val cyc st acc"
  shows "iterProps fn stack kvs acc = iterProps fn' stack kvs acc"
  using assms
proof (induction kvs arbitrary: acc)
  case Nil
  show ?case by simp
next
  case (Cons kv kvs)
  obtain key val where kv: "kv = (key, val)" by (cases kv)
  have a: "iterNext fn stack val key acc = iterNext fn' stack val key acc"
    unfolding iterNext_def using Cons.prems[of key val] kv by simp
  have b: "iterProps fn stack kvs x = iterProps fn' stack kvs x" for x
    by (rule Cons.IH) (use Cons.prems in simp)
  have b': "iterProps fn stack kvs = iterProps fn' stack kvs"
    by (rule ext) (rule b)
  show ?case unfolding kv by (simp add: a b')
qed

lemma serializeInternalBody_frame:
  assumes ag: "agreeOn D h g" and v: "valIn D v"
    and ser: "\<And>w r st. valIn D w \<Longrightarrow> ser' (Val w) r st = ser (Val w) r st"
  shows "serializeInternalBody ser' g (Val v) refs stack = serializeInternalBody ser h (Val v) refs stack"
proof -
  note same = agree_typeofV[OF ag v] agree_classToString[OF ag v] agree_isPrimitive[OF ag v]
    agree_isObjectType[OF ag v] agree_isSerializable[OF ag v]
  show ?thesis
  proof (cases "isSerializable h (Val v) (classToString h (Val v))")
    case False
    then show ?thesis by (simp add: serializeInternalBody_def same)
  next
    case True
    have sp: "sortedProps g (Val v) = sortedProps h (Val v)"
      by (rule agree_sortedProps[OF ag v True])
    have ts: "toString g (Val v) = toString h (Val v)"
      by (rule agree_toString[OF ag v True])
    have cb: "serializeProp ser' key val cyc st acc = serializeProp ser key val cyc st acc"
      if "(key, val) \<in> set (sortedProps h (Val v))" for key val cyc st acc
    proof -
      from sortedProps_children_in[OF ag v True that] obtain w where w: "val = Val w" "valIn D w"
        by blast
      show ?thesis unfolding w(1) serializeProp_def by (simp add: ser[OF w(2)])
    qed
    have deepEq: "serializeDeep ser' g (Val v) refs stack = serializeDeep ser h (Val v) refs stack"
      unfolding serializeDeep_def iterateWithCyclicCheck_def sp
      by (simp add: iterProps_agree[OF cb])
    consider (prim) "isPrimitive h (Val v) \<and> \<not> isRealNaN (Val v)"
      | (deep) "\<not> (isPrimitive h (Val v) \<and> \<not> isRealNaN (Val v))" "isObjectType h (Val v)"
      | (rest) "\<not> (isPrimitive h (Val v) \<and> \<not> isRealNaN (Val v))" "\<not> isObjectType h (Val v)"
      by blast
    then show ?thesis
    proof cases
      case prim
      then show ?thesis by (simp add: serializeInternalBody_def same)
    next
      case deep
      with True show ?thesis by (auto simp: serializeInternalBody_def same deepEq ts)
    next
      case rest
      from rest(2) True serializable_ref_object[of h] have nr: "v \<noteq> VRef r" for r by blast
      have "v = VNum NNaN"
        using rest(1) nr by (cases v) (auto simp: isPrimitive_def typeofV_def isRealNaN_def)
      then show ?thesis
        by (simp add: serializeInternalBody_def isPrimitive_def typeofV_def isRealNaN_def
            classToString_def classOf_def isSerializable_def isKnownType_def knownTypes_def
            isPlainObject_def isObjectType_def valueOf_def toString_def toStringV_def)
    qed
  qed
qed

lemma serializeInternal_frame:
  assumes "agreeOn D h g" "valIn D v"
  shows "serializeInternal n g (Val v) refs stack = serializeInternal n h (Val v) refs stack"
  using assms(2)
proof (induction n arbitrary: v refs stack)
  case 0
  show ?case by simp
next
  case (Suc n)
  have "serializeInternalBody (serializeInternal n g) g (Val v) refs stack
      = serializeInternalBody (serializeInternal n h) h (Val v) refs stack"
    by (rule serializeInternalBody_frame[OF assms(1) Suc.prems]) (rule Suc.IH)
  then show ?case by simp
qed

lemma renaming_pair:
  assumes "distinct (map fst ps)" "(r, r') \<in> set ps"
  shows "renaming ps r = r'"
  using assms by (simp add: renaming_def)

lemma renaming_in:
  assumes "distinct (map fst ps)" "r \<in> fst ` set ps"
  shows "(r, renaming ps r) \<in> set ps"
proof -
  from assms(2) obtain r' where "(r, r') \<in> set ps" by auto
  with renaming_pair[OF assms(1) this] show ?thesis by simp
qed

lemma renaming_inj_on:
  assumes "distinct (map fst ps)" "distinct (map snd ps)"
  shows "inj_on (renaming ps) (fst ` set ps)"
proof (rule inj_onI)
  fix x y assume x: "x \<in> fst ` set ps" and y: "y \<in> fst ` set ps" and eq: "renaming ps x = renaming ps y"
  from renaming_in[OF assms(1) x] renaming_in[OF assms(1) y] eq
  have a: "(x, renaming ps x) \<in> set ps" and b: "(y, renaming ps x) \<in> set ps" by simp_all
  from assms(2) have "inj_on snd (set ps)" by (simp add: distinct_map)
  from inj_onD[OF this _ a b] show "x = y" by simp
qed

lemma renaming_image:
  assumes "distinct (map fst ps)"
  shows "renaming ps ` fst ` set ps = snd ` set ps"
proof
  show "renaming ps ` fst ` set ps \<subseteq> snd ` set ps"
    using renaming_in[OF assms] by force
  show "snd ` set ps \<subseteq> renaming ps ` fst ` set ps"
  proof
    fix y assume "y \<in> snd ` set ps"
    then obtain x where p: "(x, y) \<in> set ps" by auto
    then have "x \<in> fst ` set ps" by force
    moreover have "renaming ps x = y" by (rule renaming_pair[OF assms p])
    ultimately show "y \<in> renaming ps ` fst ` set ps" by blast
  qed
qed

text \<open>A renaming of all addresses that extends the pairs.\<close>

lemma extend_renaming:
  assumes d1: "distinct (map fst ps)" and d2: "distinct (map snd ps)"
    and bound: "\<forall>x \<in> fst ` set ps \<union> snd ` set ps. x < N"
  shows "\<exists>f'. inj f' \<and> (\<forall>r. (f' r < N) = (r < N)) \<and> (\<forall>r \<in> fst ` set ps. f' r = renaming ps r)
      \<and> (\<forall>r. r \<notin> fst ` set ps \<longrightarrow> f' r \<notin> snd ` set ps)"
proof -
  let ?D = "fst ` set ps" and ?E = "snd ` set ps"
  let ?f = "renaming ps"
  have cD: "card ?D = length ps"
    using distinct_card[OF d1] by simp
  have cE: "card ?E = length ps"
    using distinct_card[OF d2] by simp
  have sD: "?D \<subseteq> {..<N}" and sE: "?E \<subseteq> {..<N}" using bound by auto
  have "card ({..<N} - ?D) = card ({..<N} - ?E)"
    using sD sE cD cE by (simp add: card_Diff_subset)
  then obtain g where g: "bij_betw g ({..<N} - ?D) ({..<N} - ?E)"
    using finite_same_card_bij[of "{..<N} - ?D" "{..<N} - ?E"] by auto
  define f' where "f' = (\<lambda>r. if r \<in> ?D then ?f r else if r < N then g r else r)"
  have fD: "?f r \<in> ?E" if "r \<in> ?D" for r
    using renaming_image[OF d1] that by blast
  have gR: "g r \<in> {..<N} - ?E" if "r \<notin> ?D" "r < N" for r
    using g that by (auto simp: bij_betw_def)
  have inj: "inj f'"
  proof (rule injI)
    fix x y assume eq: "f' x = f' y"
    consider (dd) "x \<in> ?D" "y \<in> ?D" | (dn) "x \<in> ?D" "y \<notin> ?D" | (nd) "x \<notin> ?D" "y \<in> ?D"
      | (nn) "x \<notin> ?D" "y \<notin> ?D" by blast
    then show "x = y"
    proof cases
      case dd
      with eq have "?f x = ?f y" by (simp add: f'_def)
      from inj_onD[OF renaming_inj_on[OF d1 d2] this dd] show ?thesis .
    next
      case dn
      have a: "f' x \<in> ?E" using dn(1) fD by (simp add: f'_def)
      have "f' y \<notin> ?E"
      proof (cases "y < N")
        case True
        with gR[OF dn(2)] dn(2) show ?thesis by (simp add: f'_def)
      next
        case False
        with sE dn(2) show ?thesis by (auto simp: f'_def)
      qed
      with a eq show ?thesis by simp
    next
      case nd
      have a: "f' y \<in> ?E" using nd(2) fD by (simp add: f'_def)
      have "f' x \<notin> ?E"
      proof (cases "x < N")
        case True
        with gR[OF nd(1)] nd(1) show ?thesis by (simp add: f'_def)
      next
        case False
        with sE nd(1) show ?thesis by (auto simp: f'_def)
      qed
      with a eq show ?thesis by simp
    next
      case nn
      show ?thesis
      proof (cases "x < N"; cases "y < N")
        assume xy: "x < N" "y < N"
        with nn eq have "g x = g y" by (simp add: f'_def)
        moreover have "inj_on g ({..<N} - ?D)" using g by (simp add: bij_betw_def)
        ultimately show ?thesis using nn xy by (auto dest: inj_onD)
      next
        assume xy: "x < N" "\<not> y < N"
        with nn eq gR[OF nn(1) xy(1)] show ?thesis by (simp add: f'_def)
      next
        assume xy: "\<not> x < N" "y < N"
        with nn eq gR[OF nn(2) xy(2)] show ?thesis by (auto simp: f'_def)
      next
        assume xy: "\<not> x < N" "\<not> y < N"
        with nn eq show ?thesis by (simp add: f'_def)
      qed
    qed
  qed
  have rng: "(f' r < N) = (r < N)" for r
  proof (cases "r \<in> ?D")
    case True
    with fD[OF True] sD sE show ?thesis by (auto simp: f'_def)
  next
    case False
    show ?thesis
    proof (cases "r < N")
      case True
      with gR[OF False True] False show ?thesis by (simp add: f'_def)
    next
      case F: False
      with False show ?thesis by (simp add: f'_def)
    qed
  qed
  have out: "f' r \<notin> ?E" if "r \<notin> ?D" for r
  proof (cases "r < N")
    case True
    with gR[OF that True] that show ?thesis by (simp add: f'_def)
  next
    case False
    with sE that show ?thesis by (auto simp: f'_def)
  qed
  have "\<forall>r \<in> ?D. f' r = ?f r" by (simp add: f'_def)
  with inj rng out show ?thesis by blast
qed

lemma serializableAt_cong:
  "cls (deref g r') = cls (deref h r) \<Longrightarrow> plainProto (deref g r') = plainProto (deref h r) \<Longrightarrow>
   serializableAt g r' = serializableAt h r"
  by (simp add: serializableAt_def isSerializable_def isPlainObject_def isObjectType_def
      classToString_def classOf_def typeofV_def)

lemma refsIn_valIn: "refsIn ps vs = (\<forall>v \<in> set vs. valIn (fst ` set ps) v)"
  by (simp add: refsIn_def valIn_def list_all_iff)

lemma renameV_agree: "valIn D v \<Longrightarrow> (\<And>r. r \<in> D \<Longrightarrow> f r = f' r) \<Longrightarrow> renameV f v = renameV f' v"
  by (cases v) (simp_all add: valIn_def)

lemma serializeInternal_any_fuel:
  assumes "serializeInternal n h x r s \<noteq> Exhausted" "serializeInternal m h x r s \<noteq> Exhausted"
  shows "serializeInternal n h x r s = serializeInternal m h x r s"
proof (cases "n \<le> m")
  case True
  then obtain k where "m = n + k" using le_Suc_ex by blast
  with serializeInternal_more_fuel[OF assms(1), of k] show ?thesis by simp
next
  case False
  then obtain k where "n = m + k" using le_Suc_ex[of m n] by auto
  with serializeInternal_more_fuel[OF assms(2), of k] show ?thesis by simp
qed

lemma sameFrom_pair:
  assumes "sameFrom ps h h'" "(r, r') \<in> set ps"
  shows "cls (deref h' r') = cls (deref h r)" "plainProto (deref h' r') = plainProto (deref h r)"
    "serializableAt h r \<Longrightarrow> sameObject (renaming ps) (deref h r) (deref h' r')"
    "serializableAt h r \<Longrightarrow> refsIn ps (map snd (props (deref h r)))"
  using assms by (auto simp: sameFrom_def list_all_iff)

lemma serialize_sameFrom:
  assumes sf: "sameFrom ps h h'" and vin: "refsIn ps (v # refs)"
  shows "mapOutcome fst (serialize h' (renameV (renaming ps) v) (map (renameV (renaming ps)) refs))
       = mapOutcome fst (serialize h v refs)"
proof -
  let ?D = "fst ` set ps" and ?E = "snd ` set ps"
  let ?f = "renaming ps"
  from sf have d1: "distinct (map fst ps)" and d2: "distinct (map snd ps)"
    by (simp_all add: sameFrom_def)
  have "finite (?D \<union> ?E \<union> {..<length h} \<union> {..<length h'})" by simp
  then obtain N where N: "\<forall>x \<in> ?D \<union> ?E \<union> {..<length h} \<union> {..<length h'}. x < N"
    using finite_nat_set_iff_bounded by blast
  then have bound: "\<forall>x \<in> ?D \<union> ?E. x < N" by blast
  from extend_renaming[OF d1 d2 bound] obtain f' where
    f': "inj f' \<and> (\<forall>r. (f' r < N) = (r < N)) \<and> (\<forall>r \<in> ?D. f' r = ?f r)
      \<and> (\<forall>r. r \<notin> ?D \<longrightarrow> f' r \<notin> ?E)" ..
  from f' have inj: "inj f'" by (rule conjunct1)
  from f' have rng: "(f' r < N) = (r < N)" for r by simp
  from f' have ext0: "\<forall>r \<in> ?D. f' r = ?f r" by (elim conjE)
  have ext: "r \<in> ?D \<Longrightarrow> f' r = ?f r" for r by (rule bspec[OF ext0])
  from f' have out: "r \<notin> ?D \<Longrightarrow> f' r \<notin> ?E" for r by simp
  define brief where "brief = (\<lambda>h r. if serializableAt h r then deref h r
      else noObject\<lparr>cls := cls (deref h r), plainProto := plainProto (deref h r)\<rparr>)"
  define ha where "ha = map (\<lambda>r. if r \<in> ?D then brief h r else noObject) [0..<N]"
  define hb where "hb = map (\<lambda>r. if r \<in> ?E then brief h' r else noObject) [0..<N]"
  have dha: "deref ha r = brief h r" if "r \<in> ?D" for r
    using that bound by (simp add: deref_def ha_def)
  have dhb: "deref hb r = brief h' r" if "r \<in> ?E" for r
    using that bound by (simp add: deref_def hb_def)
  have brief_cls: "cls (brief k r) = cls (deref k r)" "plainProto (brief k r) = plainProto (deref k r)" for k r
    by (simp_all add: brief_def)
  have brief_ser: "serializableAt k r \<Longrightarrow> brief k r = deref k r" for k r
    by (simp add: brief_def)
  have pairE: "\<exists>r. (r, r') \<in> set ps" if "r' \<in> ?E" for r'
    using that by auto
  have fpair: "(r, ?f r) \<in> set ps" if "r \<in> ?D" for r
    by (rule renaming_in[OF d1 that])
  have fE: "?f r \<in> ?E" if "r \<in> ?D" for r
    using fpair[OF that] by force
  have ser_pair: "serializableAt h' r' = serializableAt h r" if "(r, r') \<in> set ps" for r r'
    by (rule serializableAt_cong) (rule sameFrom_pair[OF sf that])+
  have children: "valIn ?D w" if "r \<in> ?D" "serializableAt h r" "(k, w) \<in> set (props (deref h r))" for r k w
  proof -
    from sameFrom_pair(4)[OF sf fpair[OF that(1)] that(2)] that(3)
    show ?thesis by (force simp: refsIn_valIn)
  qed
  have agA: "agreeOn ?D h ha"
    unfolding agreeOn_def
  proof (intro ballI conjI impI allI)
    fix r assume r: "r \<in> ?D"
    show "cls (deref ha r) = cls (deref h r)" "plainProto (deref ha r) = plainProto (deref h r)"
      by (simp_all add: dha[OF r] brief_cls)
    assume s: "serializableAt h r"
    show "props (deref ha r) = props (deref h r)" "toStringRes (deref ha r) = toStringRes (deref h r)"
      by (simp_all add: dha[OF r] brief_ser[OF s])
    fix k c assume "(k, VRef c) \<in> set (props (deref h r))"
    from children[OF r s this] show "c \<in> ?D" by (simp add: valIn_def)
  qed
  have agB: "agreeOn ?E h' hb"
    unfolding agreeOn_def
  proof (intro ballI conjI impI allI)
    fix r' assume r': "r' \<in> ?E"
    show "cls (deref hb r') = cls (deref h' r')" "plainProto (deref hb r') = plainProto (deref h' r')"
      by (simp_all add: dhb[OF r'] brief_cls)
    assume s': "serializableAt h' r'"
    show "props (deref hb r') = props (deref h' r')" "toStringRes (deref hb r') = toStringRes (deref h' r')"
      by (simp_all add: dhb[OF r'] brief_ser[OF s'])
    fix k c' assume c': "(k, VRef c') \<in> set (props (deref h' r'))"
    from pairE[OF r'] obtain r where p: "(r, r') \<in> set ps" by blast
    from s' ser_pair[OF p] have s: "serializableAt h r" by simp
    from sameFrom_pair(3)[OF sf p s]
    have "set (props (deref h' r')) = set (map (\<lambda>(k, v). (k, renameV ?f v)) (props (deref h r)))"
      by (simp add: sameObject_def)
    with c' obtain w where w: "(k, w) \<in> set (props (deref h r))" "renameV ?f w = VRef c'"
      by auto
    from w(2) obtain c where c: "w = VRef c" "?f c = c'" by (cases w) auto
    from p have "r \<in> ?D" by force
    from children[OF this s w(1)] c have "c \<in> ?D" by (simp add: valIn_def)
    from fE[OF this] c show "c' \<in> ?E" by simp
  qed
  have so_blank: "sameObject f' noObject noObject"
    by (simp add: sameObject_def noObject_def)
  have graph: "sameGraph f' ha hb"
    unfolding sameGraph_def
  proof (intro conjI allI impI)
    show "inj f'" by (rule inj)
    show "length hb = length ha" by (simp add: ha_def hb_def)
    show "(f' r < length ha) = (r < length ha)" for r by (simp add: ha_def rng)
    fix r assume "r < length ha"
    then have rN: "r < N" by (simp add: ha_def)
    then have fN: "f' r < N" by (simp add: rng)
    show "sameObject f' (ha ! r) (hb ! f' r)"
    proof (cases "r \<in> ?D")
      case False
      from out[OF False] False rN fN show ?thesis
        by (simp add: ha_def hb_def so_blank)
    next
      case True
      have p: "(r, ?f r) \<in> set ps" by (rule fpair[OF True])
      have e: "f' r = ?f r" by (rule ext[OF True])
      have inE: "?f r \<in> ?E" by (rule fE[OF True])
      have a: "ha ! r = brief h r" using True rN by (simp add: ha_def)
      have b: "hb ! f' r = brief h' (?f r)" using inE fN e by (simp add: hb_def)
      show ?thesis
      proof (cases "serializableAt h r")
        case False
        with ser_pair[OF p] sameFrom_pair(1,2)[OF sf p] show ?thesis
          unfolding a b by (simp add: brief_def sameObject_def noObject_def)
      next
        case s: True
        from sameFrom_pair(3)[OF sf p s] have so: "sameObject ?f (deref h r) (deref h' (?f r))" .
        have "map (\<lambda>(k, v). (k, renameV f' v)) (props (deref h r))
            = map (\<lambda>(k, v). (k, renameV ?f v)) (props (deref h r))"
        proof (rule map_cong[OF refl])
          fix x assume x: "x \<in> set (props (deref h r))"
          obtain k w where kw: "x = (k, w)" by (cases x)
          from children[OF True s] x kw have "valIn ?D w" by blast
          from renameV_agree[OF this, of f' ?f] ext have "renameV f' w = renameV ?f w" by blast
          then show "(case x of (k, v) \<Rightarrow> (k, renameV f' v)) = (case x of (k, v) \<Rightarrow> (k, renameV ?f v))"
            by (simp add: kw)
        qed
        with so have "sameObject f' (deref h r) (deref h' (?f r))"
          by (simp add: sameObject_def)
        with s ser_pair[OF p] show ?thesis
          unfolding a b by (simp add: brief_def)
      qed
    qed
  qed
  from vin have vD: "valIn ?D v" and rD: "\<forall>x \<in> set refs. valIn ?D x"
    by (simp_all add: refsIn_valIn)
  have rv: "renameV f' v = renameV ?f v"
    by (rule renameV_agree[OF vD]) (rule ext)
  have rr: "map (renameV f') refs = map (renameV ?f) refs"
  proof (rule map_cong[OF refl])
    fix x assume "x \<in> set refs"
    with rD have "valIn ?D x" by blast
    then show "renameV f' x = renameV ?f x" by (rule renameV_agree) (rule ext)
  qed
  have vE: "valIn ?E (renameV ?f v)"
    using vD fE by (cases v) (simp_all add: valIn_def)
  let ?n = "fuelBound h"
  let ?A = "serializeInternal ?n h (Val v) refs []"
  let ?B = "serializeInternal ?n h' (Val (renameV ?f v)) (map (renameV ?f) refs) []"
  let ?C = "serializeInternal (fuelBound h') h' (Val (renameV ?f v)) (map (renameV ?f) refs) []"
  have A_ne: "?A \<noteq> Exhausted"
    using budget_root[of h "Val v" 0] by (intro serializeInternal_terminates) simp
  have C_ne: "?C \<noteq> Exhausted"
    using budget_root[of h' "Val (renameV ?f v)" 0] by (intro serializeInternal_terminates) simp
  have "?B = serializeInternal ?n hb (Val (renameV ?f v)) (map (renameV ?f) refs) []"
    by (rule serializeInternal_frame[OF agB vE, symmetric])
  also have "\<dots> = serializeInternal ?n hb (renameO f' (Val v)) (map (renameV f') refs) (map (renameO f') [])"
    by (simp add: rv rr)
  also have "\<dots> = mapOutcome (renameAcc f') (serializeInternal ?n ha (Val v) refs [])"
    by (rule serializeInternal_rename[OF graph])
  also have "serializeInternal ?n ha (Val v) refs [] = ?A"
    by (rule serializeInternal_frame[OF agA vD])
  finally have B: "?B = mapOutcome (renameAcc f') ?A" .
  with A_ne have B_ne: "?B \<noteq> Exhausted" by (cases ?A) simp_all
  have "?C = ?B" by (rule serializeInternal_any_fuel[OF C_ne B_ne])
  with B have "mapOutcome fst ?C = mapOutcome fst ?A"
    by (cases ?A) (simp_all add: renameAcc_def)
  then show ?thesis by (simp add: serialize_def)
qed

lemma obind_Returns: "obind m f = Returns y \<Longrightarrow> \<exists>x. m = Returns x \<and> f x = Returns y"
  by (cases m) simp_all

lemma iterProps_stable:
  assumes st: "stableSer ser"
    and run: "iterProps (serializeProp ser) stack kvs (s, refs) = Returns (s', r1)"
  shows "(\<exists>ys. r1 = refs @ ys) \<and>
         (\<forall>zs. iterProps (serializeProp ser) stack kvs (s, r1 @ zs) = Returns (s', r1 @ zs))"
  using run
proof (induction kvs arbitrary: s refs)
  case Nil
  then show ?case by simp
next
  case (Cons kv kvs)
  obtain key val where kv: "kv = (key, val)" by (cases kv)
  let ?cyc = "onStack stack val"
  from Cons.prems obtain acc where
    hd: "serializeProp ser key val ?cyc (stack @ [val]) (s, refs) = Returns acc"
    and tl: "iterProps (serializeProp ser) stack kvs acc = Returns (s', r1)"
    unfolding kv by (auto simp: iterNext_def dest!: obind_Returns)
  obtain sa ra where acc: "acc = (sa, ra)" by (cases acc)
  from Cons.IH[OF tl[unfolded acc]] obtain ys2 where
    r1: "r1 = ra @ ys2"
    and again: "\<And>zs. iterProps (serializeProp ser) stack kvs (sa, r1 @ zs) = Returns (s', r1 @ zs)"
    by blast
  have "(\<exists>ys1. ra = refs @ ys1) \<and>
      (\<forall>zs. serializeProp ser key val ?cyc (stack @ [val]) (s, r1 @ zs) = Returns (sa, r1 @ zs))"
  proof (cases ?cyc)
    case True
    with hd acc show ?thesis by (auto simp: serializeProp_def)
  next
    case False
    with hd acc obtain tk where
      ser: "ser val refs (stack @ [val]) = Returns (tk, ra)" and sa: "sa = s @ key @ tokenString tk"
      by (auto simp: serializeProp_def dest!: obind_Returns)
    from st ser have e: "\<exists>ys1. ra = refs @ ys1"
      and a: "\<And>zs. ser val (ra @ zs) (stack @ [val]) = Returns (tk, ra @ zs)"
      unfolding stableSer_def by blast+
    have "serializeProp ser key val ?cyc (stack @ [val]) (s, r1 @ zs) = Returns (sa, r1 @ zs)" for zs
      using a[of "ys2 @ zs"] False by (simp add: serializeProp_def r1 sa)
    with e show ?thesis by blast
  qed
  then obtain ys1 where ra: "ra = refs @ ys1"
    and hd2: "\<And>zs. serializeProp ser key val ?cyc (stack @ [val]) (s, r1 @ zs) = Returns (sa, r1 @ zs)"
    by blast
  have "r1 = refs @ (ys1 @ ys2)" by (simp add: r1 ra)
  moreover have "iterProps (serializeProp ser) stack (kv # kvs) (s, r1 @ zs) = Returns (s', r1 @ zs)" for zs
    unfolding kv by (simp add: iterNext_def hd2 again)
  ultimately show ?case by blast
qed

lemma host_is_ref:
  assumes "\<not> (isPrimitive h obj \<and> \<not> isRealNaN obj)" "\<not> isSerializable h obj (classToString h obj)"
  shows "\<exists>r. obj = Val (VRef r)"
proof (cases obj)
  case (Val v)
  with assms show ?thesis
    by (cases v) (auto simp: isPrimitive_def typeofV_def isRealNaN_def isSerializable_def
        isKnownType_def knownTypes_def classToString_def classOf_def)
next
  case (Arr vs)
  with assms(2) show ?thesis
    by (simp add: isSerializable_def isKnownType_def knownTypes_def classToString_def classOf_def)
next
  case (ArrArr vss)
  with assms(2) show ?thesis
    by (simp add: isSerializable_def isKnownType_def knownTypes_def classToString_def classOf_def)
qed

lemma serializeInternalBody_stable:
  assumes st: "stableSer ser"
    and run: "serializeInternalBody ser h obj refs stack = Returns (t, r1)"
  shows "(\<exists>ys. r1 = refs @ ys) \<and>
         (\<forall>zs. serializeInternalBody ser h obj (r1 @ zs) stack = Returns (t, r1 @ zs))"
proof -
  consider (prim) "isPrimitive h obj \<and> \<not> isRealNaN obj"
    | (host) "\<not> (isPrimitive h obj \<and> \<not> isRealNaN obj)" "\<not> isSerializable h obj (classToString h obj)"
    | (deep) "\<not> (isPrimitive h obj \<and> \<not> isRealNaN obj)" "isSerializable h obj (classToString h obj)" "isObjectType h obj"
    | (rest) "\<not> (isPrimitive h obj \<and> \<not> isRealNaN obj)" "isSerializable h obj (classToString h obj)" "\<not> isObjectType h obj"
    by blast
  then show ?thesis
  proof cases
    case prim
    with run show ?thesis by (auto simp: serializeInternalBody_def)
  next
    case host
    from host_is_ref[OF host] obtain r where r: "obj = Val (VRef r)" by blast
    have body: "serializeInternalBody ser h obj rs stack =
        (case indexOf rs obj of
           None \<Rightarrow> Returns (TNum (length rs), rs @ [VRef r])
         | Some i \<Rightarrow> Returns (TNum i, rs))" for rs
      using host(2) unfolding r
      by (simp add: serializeInternalBody_def isPrimitive_def typeofV_def isRealNaN_def split: option.split)
    show ?thesis
    proof (cases "indexOf refs obj")
      case None
      with run have t: "t = TNum (length refs)" and r1: "r1 = refs @ [VRef r]"
        by (simp_all add: body)
      have "indexOf (r1 @ zs) obj = Some (length refs)" for zs
        using indexOf_append_None[of refs "VRef r" zs] None by (simp add: r r1)
      then have "serializeInternalBody ser h obj (r1 @ zs) stack = Returns (t, r1 @ zs)" for zs
        by (simp add: body t)
      with r1 show ?thesis by blast
    next
      case (Some i)
      with run have t: "t = TNum i" and r1: "r1 = refs" by (simp_all add: body)
      have "indexOf (r1 @ zs) obj = Some i" for zs
        using indexOf_append_Some[OF Some] by (simp add: r1)
      then have "serializeInternalBody ser h obj (r1 @ zs) stack = Returns (t, r1 @ zs)" for zs
        by (simp add: body t)
      with r1 show ?thesis by simp
    qed
  next
    case deep
    have body: "serializeInternalBody ser h obj rs stack =
        obind (serializeDeep ser h obj rs stack) (\<lambda>r.
          obind (toString h obj) (\<lambda>s.
            Returns (TStr (typeof h obj @ classToString h obj @ fst r @ s), snd r)))" for rs
      using deep by (auto simp: serializeInternalBody_def)
    from run obtain sd str where
      d: "serializeDeep ser h obj refs stack = Returns (sd, r1)"
      and ts: "toString h obj = Returns str"
      and t: "t = TStr (typeof h obj @ classToString h obj @ sd @ str)"
      unfolding body by (auto dest!: obind_Returns)
    from d have "iterProps (serializeProp ser) stack (sortedProps h obj) ([], refs) = Returns (sd, r1)"
      by (simp add: serializeDeep_def iterateWithCyclicCheck_def)
    from iterProps_stable[OF st this] obtain ys where
      e: "r1 = refs @ ys"
      and a: "\<And>zs. iterProps (serializeProp ser) stack (sortedProps h obj) ([], r1 @ zs) = Returns (sd, r1 @ zs)"
      by blast
    have "serializeInternalBody ser h obj (r1 @ zs) stack = Returns (t, r1 @ zs)" for zs
      unfolding body by (simp add: serializeDeep_def iterateWithCyclicCheck_def a ts t)
    with e show ?thesis by blast
  next
    case rest
    have body: "serializeInternalBody ser h obj rs stack =
        (if obj = Val (VNum NNegZero) then
           Returns (TStr (typeof h obj @ classToString h obj @ ''-0''), rs)
         else obind (valueOf h obj) (\<lambda>v. obind (toString h v) (\<lambda>s.
           Returns (TStr (typeof h obj @ classToString h obj @ s), rs))))" for rs
      using rest by (auto simp: serializeInternalBody_def)
    from run have "r1 = refs \<and> (\<forall>zs. serializeInternalBody ser h obj (r1 @ zs) stack = Returns (t, r1 @ zs))"
      unfolding body by (auto split: if_splits dest!: obind_Returns)
    then show ?thesis by auto
  qed
qed

lemma serializeInternal_stable: "stableSer (serializeInternal n h)"
proof (induction n)
  case 0
  show ?case by (simp add: stableSer_def)
next
  case (Suc n)
  show ?case
    unfolding stableSer_def
  proof (intro allI impI)
    fix x r st t r1
    assume "serializeInternal (Suc n) h x r st = Returns (t, r1)"
    then have "serializeInternalBody (serializeInternal n h) h x r st = Returns (t, r1)" by simp
    from serializeInternalBody_stable[OF Suc this]
    show "(\<exists>ys. r1 = r @ ys) \<and> (\<forall>zs. serializeInternal (Suc n) h x (r1 @ zs) st = Returns (t, r1 @ zs))"
      by simp
  qed
qed

lemma serialize_again:
  assumes "serialize h v refs = Returns (t, refs1)"
  shows "serialize h v refs1 = Returns (t, refs1)"
proof -
  from serializeInternal_stable[of "fuelBound h" h] assms
  have "\<forall>zs. serializeInternal (fuelBound h) h (Val v) (refs1 @ zs) [] = Returns (t, refs1 @ zs)"
    unfolding stableSer_def serialize_def by blast
  from this[rule_format, of "[]"] show ?thesis by (simp add: serialize_def)
qed

text \<open>
  Claim C8. (1) \<open>serialize\<close> reads the keys of an object in sorted order, so the token
  does not depend on the order in which properties were inserted: if the objects that
  can be reached from a value \<open>v\<close> of the heap \<open>h\<close> correspond, along the pairs \<open>ps\<close>,
  to objects of \<open>h'\<close> that hold the same properties in any order (\<open>sameFrom\<close>; the two
  heaps may be one, and objects that are in no pair, such as one that refers to \<open>v\<close>
  only, are free), then \<open>serialize\<close> returns the same token for \<open>v\<close> and for its
  counterpart, from corresponding tables of references. (2) Repeated calls agree: a call
  with the table of references that an earlier call left returns the same token and
  leaves the table as it is. (3) Two distinct objects \<open>r1\<close>, \<open>r2\<close> that are not
  serializable (host objects) get distinct tokens in one table of references: the token
  of \<open>r1\<close> is the index \<open>i\<close> of its first occurrence in the table, the token \<open>j\<close>
  of \<open>r2\<close>, serialized after any further entries \<open>later\<close>, differs from it, and
  serializing \<open>r1\<close> again yields \<open>i\<close> again.
\<close>

theorem serialize_sorted_keys_and_host_tokens:
  "(sameFrom ps h h' \<and> refsIn ps (v # refs) \<longrightarrow>
      mapOutcome fst (serialize h' (renameV (renaming ps) v) (map (renameV (renaming ps)) refs))
        = mapOutcome fst (serialize h v refs))
   \<and> (serialize h v refs = Returns (t, refs') \<longrightarrow> serialize h v refs' = Returns (t, refs'))
   \<and> (\<not> isSerializable h (Val (VRef r1)) (classToString h (Val (VRef r1)))
      \<and> \<not> isSerializable h (Val (VRef r2)) (classToString h (Val (VRef r2))) \<and> r1 \<noteq> r2 \<longrightarrow>
      (\<exists>i j refs1 refs2.
         serialize h (VRef r1) refs = Returns (TNum i, refs1)
       \<and> i < length refs1 \<and> refs1 ! i = VRef r1
       \<and> serialize h (VRef r2) (refs1 @ later) = Returns (TNum j, refs2)
       \<and> i \<noteq> j
       \<and> serialize h (VRef r1) refs2 = Returns (TNum i, refs2)))"
proof (intro conjI impI)
  assume "sameFrom ps h h' \<and> refsIn ps (v # refs)"
  then show "mapOutcome fst (serialize h' (renameV (renaming ps) v) (map (renameV (renaming ps)) refs))
        = mapOutcome fst (serialize h v refs)"
    using serialize_sameFrom[of ps h h' v refs] by blast
next
  assume "serialize h v refs = Returns (t, refs')"
  then show "serialize h v refs' = Returns (t, refs')" by (rule serialize_again)
next
  assume "\<not> isSerializable h (Val (VRef r1)) (classToString h (Val (VRef r1)))
      \<and> \<not> isSerializable h (Val (VRef r2)) (classToString h (Val (VRef r2))) \<and> r1 \<noteq> r2"
  then show "\<exists>i j refs1 refs2.
         serialize h (VRef r1) refs = Returns (TNum i, refs1)
       \<and> i < length refs1 \<and> refs1 ! i = VRef r1
       \<and> serialize h (VRef r2) (refs1 @ later) = Returns (TNum j, refs2)
       \<and> i \<noteq> j
       \<and> serialize h (VRef r1) refs2 = Returns (TNum i, refs2)"
    using hosts_distinct[of h r1 r2 refs later] by blast
qed

text \<open>The witness: the two plain objects of the example heap, which correspond along
  the pairs \<open>(0, 1)\<close> and \<open>(2, 2)\<close> although the object at 4 refers to the first of
  them only, and its two host objects.\<close>

lemma sameFrom_example: "sameFrom [(0, 1), (2, 2)] exampleHeap exampleHeap"
  by code_simp

lemma example_tokens:
  "serialize exampleHeap (VRef 0) [] = Returns (TStr ''object[object Object]anumber1b0[object Object]'', [VRef 2])"
  "serialize exampleHeap (VRef 1) [] = Returns (TStr ''object[object Object]anumber1b0[object Object]'', [VRef 2])"
  "serialize exampleHeap (VRef 2) [] = Returns (TNum 0, [VRef 2])"
  "serialize exampleHeap (VRef 3) [VRef 2] = Returns (TNum 1, [VRef 2, VRef 3])"
  by code_simp+

lemma example_hosts:
  "\<not> isSerializable exampleHeap (Val (VRef 2)) (classToString exampleHeap (Val (VRef 2)))"
  "\<not> isSerializable exampleHeap (Val (VRef 3)) (classToString exampleHeap (Val (VRef 3)))"
  by code_simp+

theorem serialize_sorted_keys_and_host_tokens_witness:
  "sameFrom [(0, 1), (2, 2)] exampleHeap exampleHeap
   \<and> refsIn [(0, 1), (2, 2)] [VRef 0]
   \<and> mapOutcome fst (serialize exampleHeap (VRef 1) []) = mapOutcome fst (serialize exampleHeap (VRef 0) [])
   \<and> serialize exampleHeap (VRef 0) [] = Returns (TStr ''object[object Object]anumber1b0[object Object]'', [VRef 2])
   \<and> serialize exampleHeap (VRef 0) [VRef 2] = Returns (TStr ''object[object Object]anumber1b0[object Object]'', [VRef 2])
   \<and> \<not> isSerializable exampleHeap (Val (VRef 2)) (classToString exampleHeap (Val (VRef 2)))
   \<and> \<not> isSerializable exampleHeap (Val (VRef 3)) (classToString exampleHeap (Val (VRef 3)))
   \<and> (\<exists>i j refs1 refs2.
         serialize exampleHeap (VRef 2) [] = Returns (TNum i, refs1)
       \<and> i < length refs1 \<and> refs1 ! i = VRef 2
       \<and> serialize exampleHeap (VRef 3) (refs1 @ []) = Returns (TNum j, refs2)
       \<and> i \<noteq> j
       \<and> serialize exampleHeap (VRef 2) refs2 = Returns (TNum i, refs2))"
proof -
  have ne: "(2::nat) \<noteq> 3" by simp
  have rin: "refsIn [(0, 1), (2, 2)] [VRef 0]" by code_simp
  have ren: "renameV (renaming [(0, 1), (2, 2)]) (VRef 0) = VRef 1" by code_simp
  note inst = serialize_sorted_keys_and_host_tokens[of "[(0, 1), (2, 2)]" exampleHeap exampleHeap "VRef 0" "[]"
      "TStr ''object[object Object]anumber1b0[object Object]''" "[VRef 2]" 2 3 "[]"]
  from inst sameFrom_example rin
  have a: "mapOutcome fst (serialize exampleHeap (renameV (renaming [(0, 1), (2, 2)]) (VRef 0))
             (map (renameV (renaming [(0, 1), (2, 2)])) []))
          = mapOutcome fst (serialize exampleHeap (VRef 0) [])"
    by blast
  from inst example_tokens(1)
  have b: "serialize exampleHeap (VRef 0) [VRef 2]
      = Returns (TStr ''object[object Object]anumber1b0[object Object]'', [VRef 2])"
    by blast
  from inst example_hosts ne
  have c: "\<exists>i j refs1 refs2.
         serialize exampleHeap (VRef 2) [] = Returns (TNum i, refs1)
       \<and> i < length refs1 \<and> refs1 ! i = VRef 2
       \<and> serialize exampleHeap (VRef 3) (refs1 @ []) = Returns (TNum j, refs2)
       \<and> i \<noteq> j
       \<and> serialize exampleHeap (VRef 2) refs2 = Returns (TNum i, refs2)"
    by blast
  from a have a': "mapOutcome fst (serialize exampleHeap (VRef 1) []) = mapOutcome fst (serialize exampleHeap (VRef 0) [])"
    unfolding ren by simp
  show ?thesis
    using sameFrom_example rin a' example_tokens(1) b example_hosts c by blast
qed

subsection \<open>Ranges in paths\<close>

text \<open>
  Claim C2, as amended. A range is only recognised inside brackets. For the array
  \<open>[10, 20, 30, 40]\<close>: \<open>get(arr, "[1..2]")\<close> returns a new array \<open>[20, 30]\<close>;
  \<open>get(arr, "[1..-1]")\<close> returns a new array \<open>[20, 30, 40]\<close> (an end of \<open>-1\<close> is
  the end of the array); \<open>set(arr, "[0..1]", 99)\<close> returns \<open>arr\<close>, which then holds
  \<open>[99, 99, 30, 40]\<close>, and allocates nothing.
\<close>

theorem range_with_brackets:
  "deepGetProperty exampleArray (VRef 0) (PStr ''[1..2]'') False
     = Returns (VRef 1, exampleArray @ [arrayOf (nums [20, 30])])
   \<and> deepGetProperty exampleArray (VRef 0) (PStr ''[1..-1]'') False
     = Returns (VRef 1, exampleArray @ [arrayOf (nums [20, 30, 40])])
   \<and> (case deepSetProperty exampleArray (VRef 0) (PStr ''[0..1]'') (VNum (NInt 99)) of
        Returns (v, h) \<Rightarrow> v = VRef 0 \<and> length h = 1
          \<and> arrayElems h (VRef 0) = zip [0, 1, 2, 3] (nums [99, 99, 30, 40])
      | _ \<Rightarrow> False)"
  by code_simp

text \<open>
  The claim as stated fails: the paths \<open>1..2\<close>, \<open>1..-1\<close> and \<open>0..1\<close> hold \<open>..\<close>,
  so \<open>handleDeepProperty\<close> hands them to \<open>handleArrayIndexRange\<close>, whose regular
  expression asks for \<open>[\<close> and \<open>]\<close> and does not match; the result is
  \<open>undefined\<close> and nothing is written.
\<close>

theorem range_without_brackets_counterexample:
  "deepGetProperty exampleArray (VRef 0) (PStr ''1..2'') False = Returns (VUndefined, exampleArray)
   \<and> deepGetProperty exampleArray (VRef 0) (PStr ''1..-1'') False = Returns (VUndefined, exampleArray)
   \<and> deepSetProperty exampleArray (VRef 0) (PStr ''0..1'') (VNum (NInt 99)) = Returns (VRef 0, exampleArray)
   \<and> matchRange ''1..2'' = None"
  by code_simp

subsection \<open>Memoization of parsed strings\<close>

lemma memoInv_init: "memoInv fn memoizeFunction"
  by (simp add: memoInv_def memoizeFunction_def)

lemma memoInv_call: "memoInv fn m \<Longrightarrow> memoInv fn (snd (callMemoized fn m key))"
  by (auto simp: memoInv_def callMemoized_def memoizeFunction_def Let_def INTERNAL_MEMOIZE_LIMIT_def
      split: option.splits outcome.splits)

lemma memoInv_after: "memoInv fn (memoAfter fn keys)"
proof -
  have "memoInv fn m \<Longrightarrow> memoInv fn (foldl (\<lambda>m key. snd (callMemoized fn m key)) m keys)" for m
    by (induction keys arbitrary: m) (simp_all add: memoInv_call)
  from this[OF memoInv_init] show ?thesis by (simp add: memoAfter_def)
qed

lemma memoInv_result: "memoInv fn m \<Longrightarrow> fst (callMemoized fn m key) = fn key"
proof -
  assume inv: "memoInv fn m"
  show ?thesis
  proof (cases "map_of (memoEntries m) key")
    case None
    then show ?thesis
      by (simp add: callMemoized_def Let_def split: outcome.splits)
  next
    case (Some v)
    then have "(key, v) \<in> set (memoEntries m)" by (rule map_of_SomeD)
    with inv have "fn key = Returns v" by (auto simp: memoInv_def list_all_iff)
    with Some show ?thesis by (simp add: callMemoized_def)
  qed
qed

text \<open>
  Claim C3, as the code has it. The bounded cache is the one of \<open>memoizeFunction\<close>:
  after any sequence of calls it holds at most 1000 entries; a call returns what the
  function itself returns, whether the key was found or not; and a miss at a counter of
  1000 empties the whole table before the new entry is stored. The path functions
  \<open>get\<close>, \<open>has\<close> and \<open>set\<close> go straight to \<open>handleDeepProperty\<close>, which splits the
  path at every call, and leave every memoized closure of the module as it was.
\<close>

theorem memoize_bounded_and_paths_not_memoized:
  "length (memoEntries (memoAfter fn keys)) \<le> 1000
   \<and> fst (callMemoized fn (memoAfter fn keys) key) = fn key
   \<and> memoEntries (snd (callMemoized fn \<lparr>memoEntries = es, memoCounter = 1000\<rparr> key)) =
       (case map_of es key of
          Some v \<Rightarrow> es
        | None \<Rightarrow> (case fn key of
            Returns v \<Rightarrow> (if key = ''__proto__'' then [] else [(key, v)])
          | _ \<Rightarrow> []))
   \<and> pathGet st obj path any = onObjects st (handleDeepProperty (pathFuel path) (objects st) obj path any False False False VUndefined)
   \<and> pathHas st obj path any = onObjects st (handleDeepProperty (pathFuel path) (objects st) obj path any True False False VUndefined)
   \<and> pathSet st obj path val = onObjects st
        (obind (handleDeepProperty (pathFuel path) (objects st) obj path False False True False val)
           (\<lambda>r. Returns (obj, snd r)))
   \<and> memos (snd (case onObjects st r of Returns p \<Rightarrow> p | _ \<Rightarrow> (VUndefined, st))) = memos st"
proof -
  have a: "length (memoEntries (memoAfter fn keys)) \<le> 1000"
    using memoInv_after[of fn keys] by (simp add: memoInv_def INTERNAL_MEMOIZE_LIMIT_def)
  have b: "fst (callMemoized fn (memoAfter fn keys) key) = fn key"
    by (rule memoInv_result[OF memoInv_after])
  have c: "memoEntries (snd (callMemoized fn \<lparr>memoEntries = es, memoCounter = 1000\<rparr> key)) =
       (case map_of es key of
          Some v \<Rightarrow> es
        | None \<Rightarrow> (case fn key of
            Returns v \<Rightarrow> (if key = ''__proto__'' then [] else [(key, v)])
          | _ \<Rightarrow> []))"
    by (simp add: callMemoized_def Let_def INTERNAL_MEMOIZE_LIMIT_def memoizeFunction_def
        split: option.splits outcome.splits)
  have d: "memos (snd (case onObjects st r of Returns p \<Rightarrow> p | _ \<Rightarrow> (VUndefined, st))) = memos st"
    by (cases r) (simp_all add: onObjects_def)
  show ?thesis
    using a b c d
    by (simp add: pathGet_def pathHas_def pathSet_def deepGetProperty_def deepHasProperty_def
        deepSetProperty_def)
qed

text \<open>
  Claim C3, as stated, fails: a path string is not held in any cache. In a module with
  one memoized closure, \<open>get\<close>, \<open>has\<close> and \<open>set\<close> of the path \<open>1\<close> leave its table empty.
\<close>

theorem paths_memoized_counterexample:
  "memos exampleModule = [memoizeFunction]
   \<and> pathGet exampleModule (VRef 0) (PStr ''1'') False = Returns (VNum (NInt 20), exampleModule)
   \<and> pathHas exampleModule (VRef 0) (PStr ''1'') False = Returns (VBool True, exampleModule)
   \<and> (case pathSet exampleModule (VRef 0) (PStr ''1'') (VNum (NInt 7)) of
        Returns (v, st) \<Rightarrow> memos st = [memoizeFunction] \<and> memoEntries (memos st ! 0) = []
      | _ \<Rightarrow> False)"
  by code_simp

subsection \<open>Equality of the zeros and of \<open>NaN\<close>\<close>

text \<open>
  Claim C7. In every heap, \<open>equal(0, -0)\<close> returns \<open>false\<close>: the two zeros pass the
  \<open>===\<close> fast path, which then tells them apart by \<open>1 / a === 1 / b\<close>. And
  \<open>equal(NaN, NaN)\<close> returns \<open>true\<close>, not by the fast path (\<open>NaN === NaN\<close> is false)
  but by the final comparison of the two values' strings.
\<close>

theorem equal_zero_negzero_nan:
  "equal h (VNum (NInt 0)) (VNum NNegZero) = Returns False
   \<and> \<not> strictEqV (VNum NNaN) (VNum NNaN)
   \<and> equal h (VNum NNaN) (VNum NNaN) = stringsEqual h (Val (VNum NNaN)) (Val (VNum NNaN))
   \<and> equal h (VNum NNaN) (VNum NNaN) = Returns True"
  unfolding equal_def fuelBound_Suc isEqual_zero_negzero isEqual_nan stringsEqual_nan
  by (simp add: numEq_def)

subsection \<open>Memoization does not tell the zeros apart\<close>

text \<open>
  Claim C10. \<open>serialize\<close> gives \<open>0\<close> and \<open>-0\<close> the same token \<open>number0\<close>, whatever
  the heap and the table of references. Hence for a function memoized with the default
  hash (\<open>collectArguments\<close>), with any limit and in any state of the closure: a call
  with \<open>0\<close> returns some result \<open>r\<close>, and a following call with \<open>-0\<close> returns the
  same \<open>r\<close> and leaves the state as it was (no new entry: it was served from the map).
  In a fresh closure \<open>r\<close> is \<open>fn(0)\<close>, also where \<open>fn(-0)\<close> would differ. All this
  while \<open>equal(0, -0)\<close> is \<open>false\<close>.
\<close>

theorem memoize_conflates_zeros:
  "serialize h (VNum (NInt 0)) refs = Returns (TStr ''number0'', refs)
   \<and> serialize h (VNum NNegZero) refs = Returns (TStr ''number0'', refs)
   \<and> (\<exists>r st'. callHashedMemoized fn collectArguments limit h st [VNum (NInt 0)] = Returns (r, st')
         \<and> callHashedMemoized fn collectArguments limit h st' [VNum NNegZero] = Returns (r, st'))
   \<and> callHashedMemoized fn collectArguments limit h createHashedMemoizeFunction [VNum (NInt 0)]
       = Returns (fn [VNum (NInt 0)],
           \<lparr>hmMap = [(''object[object Array]0number00'', fn [VNum (NInt 0)])],
            hmRefs = [], hmCounter = 1\<rparr>)
   \<and> equal h (VNum (NInt 0)) (VNum NNegZero) = Returns False"
proof -
  have a: "serialize h (VNum (NInt 0)) refs = Returns (TStr ''number0'', refs)"
    unfolding serialize_def fuelBound_Suc by (rule serialize_zero)
  have b: "serialize h (VNum NNegZero) refs = Returns (TStr ''number0'', refs)"
    unfolding serialize_def fuelBound_Suc by (rule serialize_negzero)
  have c: "\<exists>r st'. callHashedMemoized fn collectArguments limit h st [VNum (NInt 0)] = Returns (r, st')
        \<and> callHashedMemoized fn collectArguments limit h st' [VNum NNegZero] = Returns (r, st')"
    unfolding call_memoized_zero call_memoized_negzero
    by (cases "map_of (hmMap st) ''object[object Array]0number00''") (simp_all add: Let_def)
  have d: "callHashedMemoized fn collectArguments limit h createHashedMemoizeFunction [VNum (NInt 0)]
      = Returns (fn [VNum (NInt 0)],
           \<lparr>hmMap = [(''object[object Array]0number00'', fn [VNum (NInt 0)])],
            hmRefs = [], hmCounter = 1\<rparr>)"
    unfolding call_memoized_zero by (simp add: createHashedMemoizeFunction_def)
  have e: "equal h (VNum (NInt 0)) (VNum NNegZero) = Returns False"
    unfolding equal_def fuelBound_Suc by (rule isEqual_zero_negzero)
  from a b c d e show ?thesis by blast
qed

subsection \<open>A namespace is made anew by every call\<close>

lemma protoOnly_refl: "protoOnly st st"
  by (simp add: protoOnly_def)

lemma take_take_prefix:
  assumes "take (length a) b = a" "take (length b) c = b"
  shows "take (length a) c = (a :: 'a list)"
proof -
  have "length (take (length a) b) = length a"
    using assms(1) by simp
  then have le: "length a \<le> length b"
    by simp
  have "take (length a) c = take (length a) (take (length b) c)"
    using le by (simp add: min.absorb1)
  then show ?thesis using assms by simp
qed

lemma protoOnly_trans: "protoOnly a b \<Longrightarrow> protoOnly b c \<Longrightarrow> protoOnly a c"
  unfolding protoOnly_def using take_take_prefix by auto

lemma protoOnly_newFunction: "protoOnly st (snd (newFunction f st))"
  by (simp add: protoOnly_def newFunction_def)

lemma map_update_same:
  "f y = f (if c < length xs then xs ! c else d) \<Longrightarrow> map f (xs[c := y]) = map f xs"
  by (cases "c < length xs") (simp_all add: map_update list_update_same_conv list_update_beyond)

lemma protoOnly_updateProto:
  "protoOnly st (updateChainable c (\<lambda>x. x\<lparr>chProto := g x\<rparr>) st)"
  unfolding protoOnly_def updateChainable_def chainableAt_def
  by (simp add: map_update_same)

lemma protoOnly_setObjectChainableOnNamespace:
  "protoOnly st (setObjectChainableOnNamespace ns methodName fn st)"
  unfolding setObjectChainableOnNamespace_def
  by (simp add: protoOnly_refl protoOnly_updateProto)

lemma protoOnly_foldl:
  assumes "\<And>s x. protoOnly s (f s x)"
  shows "protoOnly st (foldl f st xs)"
proof (induction xs arbitrary: st)
  case Nil
  show ?case by (simp add: protoOnly_refl)
next
  case (Cons x xs)
  have "protoOnly st (f st x)" by (rule assms)
  moreover have "protoOnly (f st x) (foldl f (f st x) xs)" by (rule Cons.IH)
  ultimately show ?case using protoOnly_trans by simp
qed

lemma protoOnly_mapObjectChainableToAllNamespaces:
  "protoOnly st (mapObjectChainableToAllNamespaces methodName fn st)"
  unfolding mapObjectChainableToAllNamespaces_def
  by (rule protoOnly_foldl) (rule protoOnly_setObjectChainableOnNamespace)

lemma protoOnly_mapObjectChainablesToNamespace:
  "protoOnly st (mapObjectChainablesToNamespace ns st)"
proof (cases "map_of (sugar st) ''Object''")
  case None
  then show ?thesis by (simp add: mapObjectChainablesToNamespace_def protoOnly_refl)
next
  case (Some object)
  have "protoOnly st (foldl (\<lambda>s p. setObjectChainableOnNamespace ns (fst p) (snd p) s)
        st (chProto (chainableAt st object)))"
    by (rule protoOnly_foldl) (rule protoOnly_setObjectChainableOnNamespace)
  then show ?thesis using Some
    by (simp add: mapObjectChainablesToNamespace_def case_prod_unfold)
qed

lemma protoOnly_wrapWithChainableResult: "protoOnly st (snd (wrapWithChainableResult fn st))"
  by (simp add: wrapWithChainableResult_def protoOnly_newFunction)

lemma protoOnly_disambiguateMethod: "protoOnly st (snd (disambiguateMethod m st))"
  by (simp add: disambiguateMethod_def protoOnly_newFunction)

lemma protoOnly_defineChainableMethod:
  "protoOnly st (snd (defineChainableMethod ns methodName fn st))"
proof -
  obtain wrapped st1 where w: "wrapWithChainableResult fn st = (wrapped, st1)"
    by (cases "wrapWithChainableResult fn st")
  have p1: "protoOnly st st1"
    using protoOnly_wrapWithChainableResult[of st fn] w by simp
  obtain d s where d: "disambiguateMethod methodName st1 = (d, s)"
    by (cases "disambiguateMethod methodName st1")
  have pd: "protoOnly st1 s"
    using protoOnly_disambiguateMethod[of st1 methodName] d by simp
  define inheritedSlot where "inheritedSlot = map_of (membersOf st1 ''Object'') methodName"
  define existing where "existing = (case map_of (chProto (chainableAt st1 0)) methodName of
              Some a \<Rightarrow> Some (Fn a) | None \<Rightarrow> inheritedSlot)"
  define st2 where "st2 = (if \<not> truthySlot existing \<or> \<not> (case existing of Some (Fn a) \<Rightarrow> fnDisambiguate (fnAt st1 a) | _ \<Rightarrow> False)
                 then (if truthySlot existing \<and> existing \<noteq> inheritedSlot
                       then updateChainable 0 (\<lambda>c. c\<lparr>chProto := assign methodName d (chProto c)\<rparr>) s
                       else updateChainable 0 (\<lambda>c. c\<lparr>chProto := assign methodName wrapped (chProto c)\<rparr>) st1)
                 else st1)"
  have p2: "protoOnly st1 st2"
    unfolding st2_def
    using pd protoOnly_trans[OF pd protoOnly_updateProto] protoOnly_updateProto protoOnly_refl
    by simp
  have p02: "protoOnly st st2" by (rule protoOnly_trans[OF p1 p2])
  define st3 where "st3 = (\<lambda>n. updateChainable n (\<lambda>c. c\<lparr>chProto := assign methodName wrapped (chProto c)\<rparr>) st2)"
  have p3: "protoOnly st (st3 n)" for n
    unfolding st3_def by (rule protoOnly_trans[OF p02 protoOnly_updateProto])
  have p4: "protoOnly st (mapObjectChainableToAllNamespaces methodName wrapped (st3 n))" for n
    by (rule protoOnly_trans[OF p3 protoOnly_mapObjectChainableToAllNamespaces])
  have eq: "defineChainableMethod ns methodName fn st = (case ns of
       None \<Rightarrow> (Inl EngineTypeError, st2)
     | Some n \<Rightarrow> (Inr (), if map_of (sugar (st3 n)) ''Object'' = Some n
                          then mapObjectChainableToAllNamespaces methodName wrapped (st3 n)
                          else st3 n))"
    unfolding defineChainableMethod_def Let_def st3_def st2_def existing_def inheritedSlot_def w d split_conv
    by (rule refl)
  show ?thesis
    unfolding eq using p02 p3 p4 by (simp split: option.split)
qed

lemma defineChainableMethod_Some_returns:
  "fst (defineChainableMethod (Some ns) methodName fn st) = Inr ()"
  by (simp add: defineChainableMethod_def Let_def case_prod_unfold)

lemma protoOnly_forEachProperty:
  assumes "\<And>s x. protoOnly s (snd (f x s))"
  shows "protoOnly st (snd (forEachProperty f xs st))"
proof (induction xs arbitrary: st)
  case Nil
  show ?case by (simp add: protoOnly_refl)
next
  case (Cons x xs)
  obtain r s where fx: "f x st = (r, s)" by (cases "f x st")
  have ps: "protoOnly st s" using assms[of st x] fx by simp
  show ?case
  proof (cases r)
    case (Inl e)
    then show ?thesis using fx ps by simp
  next
    case (Inr u)
    have "protoOnly s (snd (forEachProperty f xs s))" by (rule Cons.IH)
    then show ?thesis using fx Inr protoOnly_trans[OF ps] by simp
  qed
qed

lemma returns_forEachProperty:
  assumes "\<And>s x. fst (f x s) = Inr ()"
  shows "fst (forEachProperty f xs st) = Inr ()"
proof (induction xs arbitrary: st)
  case Nil
  show ?case by simp
next
  case (Cons x xs)
  obtain r s where fx: "f x st = (r, s)" by (cases "f x st")
  have "r = Inr ()" using assms[of x st] fx by simp
  then show ?case using fx Cons.IH by simp
qed

lemma protoOnly_mapNativeToChainable:
  "protoOnly st (snd (mapNativeToChainable name methodNames st))"
proof (cases "map_of (globalContext st) name")
  case None
  then show ?thesis by (simp add: mapNativeToChainable_def protoOnly_refl)
next
  case (Some n)
  have "protoOnly s (snd (if nativeMethodProhibited methodName then (Inr (), s)
              else (case readTarget s (ProtoOf name) methodName of
                  Some (Fn fn) \<Rightarrow> defineChainableMethod (map_of (namespacesByName st) name) methodName fn s
                | _ \<Rightarrow> (Inr (), s))))" for s methodName
    by (simp add: protoOnly_refl protoOnly_defineChainableMethod split: option.split slot.split)
  then show ?thesis using Some
    unfolding mapNativeToChainable_def
    by (simp add: protoOnly_forEachProperty)
qed

lemma returns_mapNativeToChainable:
  assumes "map_of (globalContext st) name = Some n" "map_of (namespacesByName st) name = Some ns"
  shows "fst (mapNativeToChainable name methodNames st) = Inr ()"
proof -
  have step: "fst (if nativeMethodProhibited methodName then (Inr (), s)
              else (case readTarget s (ProtoOf name) methodName of
                  Some (Fn fn) \<Rightarrow> defineChainableMethod (Some ns) methodName fn s
                | _ \<Rightarrow> (Inr (), s))) = Inr ()" for s methodName
    by (simp add: defineChainableMethod_Some_returns split: option.split slot.split)
  show ?thesis
    unfolding mapNativeToChainable_def assms option.case
    by (rule returns_forEachProperty) (rule step)
qed

lemma map_of_assign: "map_of (assign k v ps) = (map_of ps)(k \<mapsto> v)"
  by (induction ps) (auto simp: fun_eq_iff)

lemma map_fst_assign: "set (map fst (assign k v ps)) = insert k (set (map fst ps))"
  by (induction ps) auto

text \<open>
  Claim C1, as the code has it. \<open>createNamespace(name)\<close> has no check for an existing
  namespace: every call makes a chainable class that did not exist before (its address
  is the length of the store, and it has no methods), leaves the classes that existed
  with their methods, and makes the registry name the new class. When a global \<open>name\<close>
  exists the new class is returned and \<open>Sugar[name]\<close> is set to it; when there is none,
  \<open>mapNativeToChainable\<close> throws a \<open>TypeError\<close> after the registry was written, and
  \<open>Sugar\<close> is left as it was.
\<close>

theorem createNamespace_makes_a_new_namespace:
  "map_of (namespacesByName (snd (createNamespace name st))) name = Some (length (chainables st))
   \<and> map_of (namespacesByClassString (snd (createNamespace name st))) (''[object '' @ name @ '']'')
       = Some (length (chainables st))
   \<and> map chMethods (chainables (snd (createNamespace name st))) = map chMethods (chainables st) @ [[]]
   \<and> (case map_of (globalContext st) name of
        None \<Rightarrow> fst (createNamespace name st) = Inl EngineTypeError
          \<and> sugar (snd (createNamespace name st)) = sugar st
      | Some n \<Rightarrow> fst (createNamespace name st) = Inr (length (chainables st))
          \<and> sugar (snd (createNamespace name st)) = assign name (length (chainables st)) (sugar st))"
proof -
  define new where "new = length (chainables st)"
  define st1 where "st1 = st\<lparr>chainables := chainables st @ [getNewChainableClass name]\<rparr>"
  define st2 where "st2 = st1\<lparr>namespacesByName := assign name new (namespacesByName st1),
                    namespacesByClassString :=
                      assign (''[object '' @ name @ '']'') new (namespacesByClassString st1)\<rparr>"
  define st3 where "st3 = snd (mapNativeToChainable name None st2)"
  define st4 where "st4 = mapObjectChainablesToNamespace new st3"
  have p3: "protoOnly st2 st3"
    unfolding st3_def by (rule protoOnly_mapNativeToChainable)
  have p4: "protoOnly st2 st4"
    unfolding st4_def by (rule protoOnly_trans[OF p3 protoOnly_mapObjectChainablesToNamespace])
  have eq: "createNamespace name st = (case fst (mapNativeToChainable name None st2) of
       Inl e \<Rightarrow> (Inl e, st3)
     | Inr u \<Rightarrow> (Inr new, st4\<lparr>sugar := assign name new (sugar st4)\<rparr>))"
    unfolding createNamespace_def Let_def st4_def st3_def st2_def st1_def new_def
    by (simp add: case_prod_unfold split: sum.split)
  have reg2: "map_of (namespacesByName st2) name = Some new"
    "map_of (namespacesByClassString st2) (''[object '' @ name @ '']'') = Some new"
    "map chMethods (chainables st2) = map chMethods (chainables st) @ [[]]"
    "sugar st2 = sugar st" "globalContext st2 = globalContext st"
    by (simp_all add: st2_def st1_def map_of_assign getNewChainableClass_def)
  have reg: "map_of (namespacesByName s) name = Some new
      \<and> map_of (namespacesByClassString s) (''[object '' @ name @ '']'') = Some new
      \<and> map chMethods (chainables s) = map chMethods (chainables st) @ [[]]
      \<and> sugar s = sugar st" if "protoOnly st2 s" for s
    using that reg2 by (simp add: protoOnly_def)
  show ?thesis
  proof (cases "map_of (globalContext st) name")
    case None
    then have "mapNativeToChainable name None st2 = (Inl EngineTypeError, st2)"
      using reg2(5) by (simp add: mapNativeToChainable_def)
    then have "createNamespace name st = (Inl EngineTypeError, st2)"
      unfolding eq st3_def by simp
    then show ?thesis using None reg2 by (simp add: new_def)
  next
    case (Some n)
    have "fst (mapNativeToChainable name None st2) = Inr ()"
      using Some reg2 by (simp add: returns_mapNativeToChainable)
    then have "createNamespace name st = (Inr new, st4\<lparr>sugar := assign name new (sugar st4)\<rparr>)"
      unfolding eq by simp
    then show ?thesis using Some reg[OF p4] by (simp add: new_def)
  qed
qed

text \<open>
  Claim C1, as stated, fails: the second call of \<open>createNamespace('Boolean')\<close> returns
  another namespace than the first (address 9, not 8), \<open>Sugar.Boolean\<close> is replaced, and
  the method \<open>foo\<close> defined on the first namespace is not a method of the second.
\<close>

theorem createNamespace_twice_counterexample:
  "(case createNamespace ''Boolean'' exampleCore of (r1, st1) \<Rightarrow>
     (case defineInstance 8 [(''foo'', 4)] None st1 of (u, st2) \<Rightarrow>
       (case createNamespace ''Boolean'' st2 of (r2, st3) \<Rightarrow>
          r1 = Inr 8 \<and> r2 = Inr 9 \<and> r1 \<noteq> r2
        \<and> map_of (sugar st2) ''Boolean'' = Some 8 \<and> map_of (sugar st3) ''Boolean'' = Some 9
        \<and> chMethods (chainableAt st3 8) = [(''foo'', 4)] \<and> chMethods (chainableAt st3 9) = [])))"
  by code_simp

subsection \<open>\<open>extend\<close> and \<open>Object.prototype\<close>\<close>

lemma membersOf_setProperty:
  "membersOf (setProperty t key v st) g =
     (case t of
        ClassOf name \<Rightarrow> membersOf st g
      | ProtoOf name \<Rightarrow> (if g = name \<and> map_of (globalContext st) name \<noteq> None
                         then assign key v (membersOf st g) else membersOf st g))"
  by (auto simp: membersOf_def setProperty_def map_of_assign split: target.split option.split)

lemma allow_setProperty: "allowObjectPrototype (setProperty t key v st) = allowObjectPrototype st"
  by (simp add: setProperty_def split: target.split option.split)

lemma extendNative_Nil: "extendNative t [] polyfill override st = st"
  by (simp add: extendNative_def)

lemma extendNative_Cons:
  "extendNative t (p # ps) False override st = extendNative t ps False override (setProperty t (fst p) (snd p) st)"
  by (simp add: extendNative_def case_prod_unfold)

lemma allow_extendNative:
  "allowObjectPrototype (extendNative t source False override st) = allowObjectPrototype st"
  by (induction source arbitrary: st) (simp_all add: extendNative_Nil extendNative_Cons allow_setProperty)

lemma membersOf_extendNative_ClassOf:
  "membersOf (extendNative (ClassOf name) source False override st) g = membersOf st g"
  by (induction source arbitrary: st) (simp_all add: extendNative_Nil extendNative_Cons membersOf_setProperty)

lemma membersOf_extendNative_other:
  "g \<noteq> name \<Longrightarrow> membersOf (extendNative (ProtoOf name) source False override st) g = membersOf st g"
  by (induction source arbitrary: st) (simp_all add: extendNative_Nil extendNative_Cons membersOf_setProperty)

lemma membersOf_extendNative_key:
  "key \<notin> fst ` set source \<Longrightarrow>
   map_of (membersOf (extendNative t source False override st) g) key = map_of (membersOf st g) key"
proof (induction source arbitrary: st)
  case Nil
  show ?case by (simp add: extendNative_Nil)
next
  case (Cons p ps)
  have "map_of (membersOf (setProperty t (fst p) (snd p) st) g) key = map_of (membersOf st g) key"
    using Cons.prems by (simp add: membersOf_setProperty map_of_assign split: target.split)
  then show ?case using Cons by (simp add: extendNative_Cons)
qed

lemma foldl_keys:
  assumes "\<And>acc c. fst ` set (f acc c) \<subseteq> fst ` set acc \<union> S"
  shows "fst ` set (foldl f acc cs) \<subseteq> fst ` set acc \<union> S"
proof (induction cs arbitrary: acc)
  case Nil
  show ?case by simp
next
  case (Cons c cs)
  have a: "fst ` set (foldl f (f acc c) cs) \<subseteq> fst ` set (f acc c) \<union> S" by (rule Cons.IH)
  have b: "fst ` set (f acc c) \<subseteq> fst ` set acc \<union> S" by (rule assms)
  from a b have "fst ` set (foldl f (f acc c) cs) \<subseteq> fst ` set acc \<union> S" by (rule order_trans[OF _ Un_least]) simp_all
  then show ?case by simp
qed

lemma instanceMethods_keys:
  "fst ` set (instanceMethods st opts isObject name cs)
     \<subseteq> {k. \<not> objectRestricted st isObject k (ProtoOf name)}"
proof -
  let ?S = "{k. \<not> objectRestricted st isObject k (ProtoOf name)}"
  define f where "f = (\<lambda>acc (methodName, mth). case mth of
         None \<Rightarrow> acc
       | Some m \<Rightarrow>
           if fnInstance (fnAt st m) \<noteq> None \<and> canExtend st opts isObject methodName m (ProtoOf name)
           then assign methodName (instanceSlot (fnAt st m)) acc else acc)"
  have step: "fst ` set (f acc c) \<subseteq> fst ` set acc \<union> ?S" for acc c
  proof -
    obtain methodName mth where c: "c = (methodName, mth)" by (cases c)
    show ?thesis
    proof (cases "\<exists>m. mth = Some m \<and> fnInstance (fnAt st m) \<noteq> None \<and> canExtend st opts isObject methodName m (ProtoOf name)")
      case True
      then obtain m where m: "mth = Some m" "fnInstance (fnAt st m) \<noteq> None"
        "canExtend st opts isObject methodName m (ProtoOf name)" by blast
      have k: "methodName \<in> ?S"
        using m(3) by (simp add: canExtend_def)
      have fe: "f acc c = assign methodName (instanceSlot (fnAt st m)) acc"
        unfolding c f_def using m by simp
      have "fst ` set (f acc c) = insert methodName (fst ` set acc)"
        unfolding fe using map_fst_assign[of methodName "instanceSlot (fnAt st m)" acc] by simp
      with k show ?thesis by simp
    next
      case False
      have "f acc c = acc"
      proof (cases mth)
        case None
        then show ?thesis unfolding c f_def by simp
      next
        case (Some m)
        with False have "\<not> (fnInstance (fnAt st m) \<noteq> None \<and> canExtend st opts isObject methodName m (ProtoOf name))"
          by blast
        with Some show ?thesis unfolding c f_def by (simp only: prod.case option.case if_False)
      qed
      then show ?thesis by simp
    qed
  qed
  have "fst ` set (foldl f [] cs) \<subseteq> fst ` set [] \<union> ?S"
    using foldl_keys[where f = f and S = "?S" and acc = "[]" and cs = cs] step by simp
  then show ?thesis by (simp add: instanceMethods_def f_def)
qed

lemma instanceMethods_restricted:
  assumes "\<not> allowObjectPrototype st"
  shows "instanceMethods st opts True name cs = []"
proof -
  have "fst ` set (instanceMethods st opts True name cs) = {}"
    using instanceMethods_keys[of st opts True name cs] assms
    by (auto simp: objectRestricted_def)
  then show ?thesis by simp
qed

lemma instanceMethods_get_set:
  "''get'' \<notin> fst ` set (instanceMethods st opts True name cs)"
  "''set'' \<notin> fst ` set (instanceMethods st opts True name cs)"
  using instanceMethods_keys[of st opts True name cs]
  by (auto simp: objectRestricted_def)

lemma membersOf_updateChainable: "membersOf (updateChainable c f st) g = membersOf st g"
  by (simp add: membersOf_def updateChainable_def)

lemma allow_updateChainable: "allowObjectPrototype (updateChainable c f st) = allowObjectPrototype st"
  by (simp add: updateChainable_def)

text \<open>
  Claim C4, as the code has it. \<open>extend\<close> of any namespace, with any options, leaves
  \<open>Object.prototype\<close> as it was when the flag \<open>allowObjectPrototype\<close> is off after the
  call (it is off when the module is loaded, and \<open>extend\<close> of the namespace \<open>Object\<close>
  sets it to a boolean option \<open>objectPrototype\<close>); and whatever the flag, the
  properties \<open>get\<close> and \<open>set\<close> of \<open>Object.prototype\<close> are left as they were: these
  two names are never copied.
\<close>

theorem extend_leaves_object_prototype:
  "(\<not> allowObjectPrototype (snd (extend sugarNamespace opts st)) \<longrightarrow>
       membersOf (snd (extend sugarNamespace opts st)) ''Object'' = membersOf st ''Object'')
   \<and> map_of (membersOf (snd (extend sugarNamespace opts st)) ''Object'') ''get''
       = map_of (membersOf st ''Object'') ''get''
   \<and> map_of (membersOf (snd (extend sugarNamespace opts st)) ''Object'') ''set''
       = map_of (membersOf st ''Object'') ''set''"
proof -
  define name where "name = chName (chainableAt st sugarNamespace)"
  define st1 where "st1 = (case objectPrototypeOption opts of
                       Some b \<Rightarrow> (if name = ''Object'' then st\<lparr>allowObjectPrototype := b\<rparr> else st)
                     | None \<Rightarrow> st)"
  define cs where "cs = candidates (chainableAt st1 sugarNamespace) opts"
  define st2 where "st2 = extendNative (ClassOf name) (staticMethods st1 opts (name = ''Object'') name cs) False False st1"
  define ims where "ims = instanceMethods st1 opts (name = ''Object'') name cs"
  define st3 where "st3 = extendNative (ProtoOf name) ims False False st2"
  define st4 where "st4 = (if methodsOption opts = None
                    then updateChainable sugarNamespace (\<lambda>c. c\<lparr>chActive := True\<rparr>) st3
                    else st3)"
  have eq: "snd (extend sugarNamespace opts st) =
      (if map_of (globalContext st) name = None \<or> namespaceIsExcepted opts name then st else st4)"
    unfolding extend_def Let_def st4_def st3_def ims_def st2_def cs_def st1_def name_def
    by (simp split: option.split)
  have m1: "membersOf st1 g = membersOf st g" for g
    by (simp add: st1_def membersOf_def split: option.split)
  have m2: "membersOf st2 g = membersOf st g" for g
    by (simp add: st2_def membersOf_extendNative_ClassOf m1)
  have a3: "allowObjectPrototype st4 = allowObjectPrototype st1"
    by (simp add: st4_def st3_def st2_def allow_extendNative allow_updateChainable)
  have m4: "membersOf st4 g = membersOf st3 g" for g
    by (simp add: st4_def membersOf_updateChainable)
  have whole: "membersOf st4 ''Object'' = membersOf st ''Object''" if "\<not> allowObjectPrototype st4"
  proof (cases "name = ''Object''")
    case True
    have "ims = []"
      unfolding ims_def using that a3 True by (simp add: instanceMethods_restricted)
    then show ?thesis by (simp add: m4 st3_def extendNative_Nil m2)
  next
    case False
    then show ?thesis by (simp add: m4 st3_def membersOf_extendNative_other m2)
  qed
  have key: "map_of (membersOf st4 ''Object'') k = map_of (membersOf st ''Object'') k"
    if "k = ''get'' \<or> k = ''set''" for k
  proof (cases "name = ''Object''")
    case True
    have "''get'' \<notin> fst ` set ims" "''set'' \<notin> fst ` set ims"
      unfolding ims_def using True instanceMethods_get_set[of st1 opts name cs] by simp_all
    then have "k \<notin> fst ` set ims"
      using that by (cases "k = ''get''") simp_all
    then show ?thesis by (simp add: m4 st3_def membersOf_extendNative_key m2)
  next
    case False
    then show ?thesis by (simp add: m4 st3_def membersOf_extendNative_other m2)
  qed
  have g: "map_of (membersOf st4 ''Object'') ''get'' = map_of (membersOf st ''Object'') ''get''"
    by (rule key) simp
  have s: "map_of (membersOf st4 ''Object'') ''set'' = map_of (membersOf st ''Object'') ''set''"
    by (rule key) simp
  show ?thesis
    unfolding eq using whole g s by simp
qed

text \<open>The witness: the namespace \<open>Object\<close> with the instance methods \<open>get\<close> and
  \<open>has\<close>, extended with no options.\<close>

theorem extend_leaves_object_prototype_witness:
  "\<not> allowObjectPrototype (snd (extend 1 noOptions objectMethods))
   \<and> membersOf (snd (extend 1 noOptions objectMethods)) ''Object'' = membersOf objectMethods ''Object''
   \<and> membersOf objectMethods ''Object'' = [(''toString'', Fn 0)]"
proof -
  have a: "\<not> allowObjectPrototype (snd (extend 1 noOptions objectMethods))" by code_simp
  have b: "membersOf objectMethods ''Object'' = [(''toString'', Fn 0)]" by code_simp
  from extend_leaves_object_prototype[of 1 noOptions objectMethods] a
  have "membersOf (snd (extend 1 noOptions objectMethods)) ''Object'' = membersOf objectMethods ''Object''"
    by blast
  with a b show ?thesis by blast
qed

text \<open>
  Claim C4, as stated, fails: \<open>get\<close> is not extended. The namespace \<open>Object\<close> holds
  the methods \<open>get\<close> and \<open>has\<close>, each with an instance variant. With
  \<open>objectPrototype\<close> disabled \<open>Object.prototype\<close> gets neither; with
  \<open>objectPrototype: true\<close> it gets \<open>has\<close> and still not \<open>get\<close>.
\<close>

theorem extend_get_counterexample:
  "fnInstance (fnAt objectMethods 4) = Some (Some 11)
   \<and> map_of (chMethods (chainableAt objectMethods 1)) ''get'' = Some 4
   \<and> map_of (membersOf (snd (extend 1 noOptions objectMethods)) ''Object'') ''get'' = None
   \<and> map_of (membersOf (snd (extend 1 noOptions objectMethods)) ''Object'') ''has'' = None
   \<and> map_of (membersOf (snd (extend 1 (noOptions\<lparr>objectPrototypeOption := Some True\<rparr>) objectMethods)) ''Object'') ''has''
       = Some (Fn 13)
   \<and> map_of (membersOf (snd (extend 1 (noOptions\<lparr>objectPrototypeOption := Some True\<rparr>) objectMethods)) ''Object'') ''get''
       = None"
  by code_simp

subsection \<open>A disambiguation function never calls another\<close>

text \<open>
  Claim C5. A method \<open>methodName\<close> is called on a chainable object with the value
  \<open>raw\<close>; the function found is a disambiguation function (for the name \<open>m\<close>), which
  resolves the namespace of \<open>raw\<close> and fetches \<open>m\<close> from it. If what it fetches is
  marked \<open>disambiguate\<close>, the call throws, with any budget of nested calls that allows
  the call itself, and whatever the fetched function would do: the exception is
  \<open>cannotResolve\<close>, the \<open>TypeError\<close> with the message
  \<open>Cannot resolve namespace for\<close> followed by \<open>raw\<close> as the language converts it to a
  string (should that conversion itself throw, its exception is the one thrown).
\<close>

theorem disambiguation_to_a_disambiguator_throws:
  "lookupChainable st c methodName = Some (Fn d) \<and> fnCode (fnAt st d) = Disambiguate m
   \<and> resolveNamespace env st raw = Some sugarNamespace
   \<and> lookupChainable st sugarNamespace m = Some (Fn fn) \<and> fnDisambiguate (fnAt st fn) \<longrightarrow>
     callMethod (Suc n) env st (Chainable c raw) methodName args = Some (Inl (cannotResolve env raw))
   \<and> (envToString env raw = Inr s \<longrightarrow>
        callMethod (Suc n) env st (Chainable c raw) methodName args
          = Some (Inl (TypeError (''Cannot resolve namespace for '' @ s))))"
  by (simp add: callMethod_def cannotResolve_def)

text \<open>The witness: \<open>foo\<close> is defined on the namespaces \<open>Array\<close> and \<open>String\<close>, so
  that the default chainable holds a disambiguation function for it, and that function
  was then put on the prototype of the namespace \<open>String\<close>.\<close>

theorem disambiguation_to_a_disambiguator_throws_witness:
  "lookupChainable misconfigured 0 ''foo'' = Some (Fn 15)
   \<and> fnCode (fnAt misconfigured 15) = Disambiguate ''foo''
   \<and> resolveNamespace exampleEnv misconfigured (Plain (VStr ''abc'')) = Some 3
   \<and> lookupChainable misconfigured 3 ''foo'' = Some (Fn 15)
   \<and> fnDisambiguate (fnAt misconfigured 15)
   \<and> envToString exampleEnv (Plain (VStr ''abc'')) = Inr ''abc''
   \<and> callMethod (Suc 0) exampleEnv misconfigured (Chainable 0 (Plain (VStr ''abc''))) ''foo'' []
       = Some (Inl (TypeError (''Cannot resolve namespace for '' @ ''abc'')))"
proof -
  have a: "lookupChainable misconfigured 0 ''foo'' = Some (Fn 15)" by code_simp
  have b: "fnCode (fnAt misconfigured 15) = Disambiguate ''foo''" by code_simp
  have c: "resolveNamespace exampleEnv misconfigured (Plain (VStr ''abc'')) = Some 3" by code_simp
  have d: "lookupChainable misconfigured 3 ''foo'' = Some (Fn 15)" by code_simp
  have e: "fnDisambiguate (fnAt misconfigured 15)" by code_simp
  have f: "envToString exampleEnv (Plain (VStr ''abc'')) = Inr ''abc''" by code_simp
  from disambiguation_to_a_disambiguator_throws[of misconfigured 0 "''foo''" 15 "''foo''" exampleEnv
      "Plain (VStr ''abc'')" 3 15 0 "[]" "''abc''"] a b c d e f
  have "callMethod (Suc 0) exampleEnv misconfigured (Chainable 0 (Plain (VStr ''abc''))) ''foo'' []
       = Some (Inl (TypeError (''Cannot resolve namespace for '' @ ''abc'')))"
    by blast
  with a b c d e f show ?thesis by blast
qed

subsection \<open>The instance variant of a method\<close>

lemma keepsFunctions_refl: "keepsFunctions st st"
  by (simp add: keepsFunctions_def)

lemma keepsFunctions_trans: "keepsFunctions a b \<Longrightarrow> keepsFunctions b c \<Longrightarrow> keepsFunctions a c"
  unfolding keepsFunctions_def by (rule take_take_prefix)

lemma keepsFunctions_protoOnly: "protoOnly st st' \<Longrightarrow> keepsFunctions st st'"
  by (simp add: protoOnly_def keepsFunctions_def)

lemma keepsFunctions_fnAt:
  assumes "keepsFunctions st st'" "a < length (fobjs st)"
  shows "fnAt st' a = fnAt st a"
proof -
  have "length (take (length (fobjs st)) (fobjs st')) = length (fobjs st)"
    using assms(1) by (simp add: keepsFunctions_def)
  then have le: "length (fobjs st) \<le> length (fobjs st')" by simp
  have "fobjs st ! a = take (length (fobjs st)) (fobjs st') ! a"
    using assms(1) by (simp add: keepsFunctions_def)
  also have "\<dots> = fobjs st' ! a" using assms(2) by simp
  finally show ?thesis using assms(2) le by (simp add: fnAt_def)
qed

lemma fobjs_updateChainable: "fobjs (updateChainable c f st) = fobjs st"
  by (simp add: updateChainable_def)

lemma fobjs_setProperty: "fobjs (setProperty t key v st) = fobjs st"
  by (simp add: setProperty_def split: target.split option.split)

lemma fobjs_extendNative: "fobjs (extendNative t source False override st) = fobjs st"
  by (induction source arbitrary: st) (simp_all add: extendNative_Nil extendNative_Cons fobjs_setProperty)

lemma fobjs_extend: "fobjs (snd (extend sugarNamespace opts st)) = fobjs st"
  by (simp add: extend_def Let_def fobjs_extendNative fobjs_updateChainable split: option.split)

lemma keepsFunctions_setMethod: "keepsFunctions st (snd (setMethod sugarNamespace methodName method st))"
proof -
  define st1 where "st1 = updateChainable sugarNamespace (\<lambda>c. c\<lparr>chMethods := assign methodName method (chMethods c)\<rparr>) st"
  have a: "keepsFunctions st st1"
    by (simp add: keepsFunctions_def st1_def fobjs_updateChainable)
  have b: "keepsFunctions st1 (snd (defineChainableMethod (Some sugarNamespace) methodName i st1))" for i
    by (rule keepsFunctions_protoOnly[OF protoOnly_defineChainableMethod])
  have "snd (setMethod sugarNamespace methodName method st) =
      (case fnInstance (fnAt st1 method) of
         Some (Some i) \<Rightarrow> snd (defineChainableMethod (Some sugarNamespace) methodName i st1)
       | _ \<Rightarrow> st1)"
    by (simp add: setMethod_def Let_def st1_def split: option.split)
  then show ?thesis
    using a keepsFunctions_trans[OF a b] by (simp split: option.split)
qed

lemma keepsFunctions_afterSetMethod:
  "keepsFunctions st (snd (case setMethod sugarNamespace methodName staticMethod st of
           (Inl e, st5) \<Rightarrow> (Inl e, st5)
         | (Inr u, st5) \<Rightarrow>
             if chActive (chainableAt st5 sugarNamespace)
             then (case extend sugarNamespace noOptions st5 of
                 (Inl e, st6) \<Rightarrow> (Inl e, st6)
               | (Inr r, st6) \<Rightarrow> (Inr (), st6))
             else (Inr (), st5)))"
proof -
  obtain r st5 where s: "setMethod sugarNamespace methodName staticMethod st = (r, st5)"
    by (cases "setMethod sugarNamespace methodName staticMethod st")
  have k5: "keepsFunctions st st5"
    using keepsFunctions_setMethod[of st sugarNamespace methodName staticMethod] s by simp
  obtain r6 st6 where e: "extend sugarNamespace noOptions st5 = (r6, st6)"
    by (cases "extend sugarNamespace noOptions st5")
  have "fobjs st6 = fobjs st5"
    using fobjs_extend[of sugarNamespace noOptions st5] e by simp
  then have k6: "keepsFunctions st st6"
    using k5 by (simp add: keepsFunctions_def)
  show ?thesis
    using k5 k6 by (simp add: s e split: sum.split)
qed

lemma wrapInstanceMethodFixed_le5:
  assumes "fnLength (fnAt st fn) \<le> 5"
  shows "wrapInstanceMethodFixed fn st =
     (Some (length (fobjs st)),
      st\<lparr>fobjs := fobjs st @ [noFunction\<lparr>fnCode := InstanceFixed (fnCode (fnAt st fn)) (max (fnLength (fnAt st fn)) 1 - 1),
                                        fnLength := max (fnLength (fnAt st fn)) 1 - 1\<rparr>]\<rparr>)"
proof -
  from assms consider "fnLength (fnAt st fn) = 0" | "fnLength (fnAt st fn) = 1" | "fnLength (fnAt st fn) = 2"
    | "fnLength (fnAt st fn) = 3" | "fnLength (fnAt st fn) = 4" | "fnLength (fnAt st fn) = 5"
    by linarith
  then show ?thesis
    by cases (simp_all add: wrapInstanceMethodFixed_def Let_def newFunction_def)
qed

lemma wrapInstanceMethodFixed_ge6:
  assumes "6 \<le> fnLength (fnAt st fn)"
  shows "wrapInstanceMethodFixed fn st = (None, st)"
  using assms by (simp add: wrapInstanceMethodFixed_def Let_def)

lemma fnAt_updateFunction:
  "fnAt (updateFunction a f st) b = (if b = a \<and> a < length (fobjs st) then f (fnAt st a) else fnAt st b)"
  by (auto simp: fnAt_def updateFunction_def)

lemma length_updateFunction: "length (fobjs (updateFunction a f st)) = length (fobjs st)"
  by (simp add: updateFunction_def)

lemma instance_variant:
  assumes m: "method < length (fobjs st)" and inst: "hasFlag type INSTANCE"
    and none: "instanceSlot (fnAt st method) = NotFn False" and le: "fnLength (fnAt st method) \<le> 5"
  shows "fnInstance (fnAt (snd (defineMethod sugarNamespace type False flags (methodName, method) st)) method)
       = Some (Some (length (fobjs st)))"
    and "fnCode (fnAt (snd (defineMethod sugarNamespace type False flags (methodName, method) st)) (length (fobjs st)))
       = InstanceFixed (fnCode (fnAt st method)) (max (fnLength (fnAt st method)) 1 - 1)"
proof -
  define st' where "st' = snd (defineMethod sugarNamespace type False flags (methodName, method) st)"
  let ?w = "length (fobjs st)"
  let ?k = "max (fnLength (fnAt st method)) 1 - 1"
  define st2 where "st2 = (case flags of
              Some fl \<Rightarrow> updateFunction method (\<lambda>f. f\<lparr>fnFlags := Some fl\<rparr>) st
            | None \<Rightarrow> st)"
  have l2: "length (fobjs st2) = ?w" by (simp add: st2_def length_updateFunction split: option.split)
  have f2: "fnCode (fnAt st2 method) = fnCode (fnAt st method)" "fnLength (fnAt st2 method) = fnLength (fnAt st method)"
    "fnInstance (fnAt st2 method) = fnInstance (fnAt st method)"
    by (simp_all add: st2_def fnAt_updateFunction split: option.split)
  have none2: "instanceSlot (fnAt st2 method) = NotFn False"
    using none by (simp add: instanceSlot_def f2)
  define s where "s = st2\<lparr>fobjs := fobjs st2 @ [noFunction\<lparr>fnCode := InstanceFixed (fnCode (fnAt st method)) ?k, fnLength := ?k\<rparr>]\<rparr>"
  have w2: "wrapInstanceMethod method False st2 = (Some ?w, s)"
    using wrapInstanceMethodFixed_le5[of st2 "method"] le
    by (simp add: wrapInstanceMethod_def f2 l2 s_def)
  define st3 where "st3 = updateFunction method (\<lambda>f. f\<lparr>fnInstance := Some (Some ?w)\<rparr>) s"
  define st4 where "st4 = (if hasFlag type STATIC
                 then updateFunction method (\<lambda>f. f\<lparr>fnStatic := True\<rparr>) st3
                 else st3)"
  have eq: "st' = snd (case setMethod sugarNamespace methodName method st4 of
           (Inl e, st5) \<Rightarrow> (Inl e, st5)
         | (Inr u, st5) \<Rightarrow>
             if chActive (chainableAt st5 sugarNamespace)
             then (case extend sugarNamespace noOptions st5 of
                 (Inl e, st6) \<Rightarrow> (Inl e, st6)
               | (Inr r, st6) \<Rightarrow> (Inr (), st6))
             else (Inr (), st5))"
    unfolding st'_def defineMethod_def Let_def fst_conv snd_conv if_False split_conv st2_def[symmetric]
    using inst none2 by (simp add: w2 st4_def st3_def)
  have keep: "keepsFunctions st4 st'"
    unfolding eq by (rule keepsFunctions_afterSetMethod)
  have ls: "length (fobjs s) = Suc ?w" by (simp add: s_def l2)
  have l4: "length (fobjs st4) = Suc ?w"
    by (simp add: st4_def st3_def length_updateFunction ls)
  have "fobjs s ! length (fobjs st2) = noFunction\<lparr>fnCode := InstanceFixed (fnCode (fnAt st method)) ?k, fnLength := ?k\<rparr>"
    unfolding s_def by simp
  then have sAt: "fnAt s ?w = noFunction\<lparr>fnCode := InstanceFixed (fnCode (fnAt st method)) ?k, fnLength := ?k\<rparr>"
    unfolding fnAt_def[of s] ls l2 by simp
  have a3: "fnInstance (fnAt st3 method) = Some (Some ?w)"
    using m by (simp add: st3_def fnAt_updateFunction ls)
  have b3: "fnCode (fnAt st3 ?w) = InstanceFixed (fnCode (fnAt st method)) ?k"
    using m by (simp add: st3_def fnAt_updateFunction sAt)
  have a4: "fnInstance (fnAt st4 method) = Some (Some ?w)"
    using a3 by (simp add: st4_def fnAt_updateFunction)
  have b4: "fnCode (fnAt st4 ?w) = InstanceFixed (fnCode (fnAt st method)) ?k"
    using b3 m by (simp add: st4_def fnAt_updateFunction)
  show "fnInstance (fnAt (snd (defineMethod sugarNamespace type False flags (methodName, method) st)) method)
       = Some (Some ?w)"
    using keepsFunctions_fnAt[OF keep, of "method"] m l4 a4 by (simp add: st'_def)
  show "fnCode (fnAt (snd (defineMethod sugarNamespace type False flags (methodName, method) st)) ?w)
       = InstanceFixed (fnCode (fnAt st method)) ?k"
    using keepsFunctions_fnAt[OF keep, of ?w] l4 b4 by (simp add: st'_def)
qed

lemma no_instance_variant:
  assumes m: "method < length (fobjs st)" and inst: "\<not> hasFlag type INSTANCE"
  shows "fnInstance (fnAt (snd (defineMethod sugarNamespace type False flags (methodName, method) st)) method)
       = fnInstance (fnAt st method)"
proof -
  define st2 where "st2 = (case flags of
              Some fl \<Rightarrow> updateFunction method (\<lambda>f. f\<lparr>fnFlags := Some fl\<rparr>) st
            | None \<Rightarrow> st)"
  define st4 where "st4 = (if hasFlag type STATIC
                 then updateFunction method (\<lambda>f. f\<lparr>fnStatic := True\<rparr>) st2
                 else st2)"
  have eq: "snd (defineMethod sugarNamespace type False flags (methodName, method) st) =
      snd (case setMethod sugarNamespace methodName method st4 of
           (Inl e, st5) \<Rightarrow> (Inl e, st5)
         | (Inr u, st5) \<Rightarrow>
             if chActive (chainableAt st5 sugarNamespace)
             then (case extend sugarNamespace noOptions st5 of
                 (Inl e, st6) \<Rightarrow> (Inl e, st6)
               | (Inr r, st6) \<Rightarrow> (Inr (), st6))
             else (Inr (), st5))"
    unfolding defineMethod_def Let_def fst_conv snd_conv if_False split_conv st2_def[symmetric]
    using inst by (simp add: st4_def)
  have keep: "keepsFunctions st4 (snd (defineMethod sugarNamespace type False flags (methodName, method) st))"
    unfolding eq by (rule keepsFunctions_afterSetMethod)
  have l4: "length (fobjs st4) = length (fobjs st)"
    by (simp add: st4_def st2_def length_updateFunction split: option.split)
  have "fnInstance (fnAt st4 method) = fnInstance (fnAt st method)"
    by (simp add: st4_def st2_def fnAt_updateFunction split: option.split)
  then show ?thesis
    using keepsFunctions_fnAt[OF keep, of "method"] m l4 by simp
qed

text \<open>
  Claim C6, as the code has it. \<open>defineMethods\<close> without collected arguments makes an
  instance variant for a method that is defined as an instance method (\<open>type & INSTANCE\<close>),
  has no \<open>instance\<close> property that is truthy, and whose function declares at most five
  parameters: the \<open>instance\<close> property of the method then holds a new function, the
  closure of \<open>wrapInstanceMethodFixed\<close>. Called with a receiver and arguments, that closure
  calls the implementation with the receiver as first argument, followed by exactly the
  first \<open>max(length, 1) - 1\<close> arguments of the call (\<open>undefined\<close> for those the call does
  not give); the arguments after them are dropped. A method that is not defined as an
  instance method keeps the \<open>instance\<close> property it had: no variant is made.
\<close>

theorem instance_variant_forwards_by_length:
  "(method < length (fobjs st) \<and> hasFlag type INSTANCE \<and> instanceSlot (fnAt st method) = NotFn False
      \<and> fnLength (fnAt st method) \<le> 5 \<longrightarrow>
      fnInstance (fnAt (snd (defineMethod sugarNamespace type False flags (methodName, method) st)) method)
        = Some (Some (length (fobjs st)))
    \<and> fnCode (fnAt (snd (defineMethod sugarNamespace type False flags (methodName, method) st)) (length (fobjs st)))
        = InstanceFixed (fnCode (fnAt st method)) (max (fnLength (fnAt st method)) 1 - 1)
    \<and> (fnCode (fnAt st method) = Host i \<longrightarrow>
         callFn (Suc (Suc n)) env anyState
           (fnCode (fnAt (snd (defineMethod sugarNamespace type False flags (methodName, method) st)) (length (fobjs st))))
           this args
         = Some (envCall env i (Plain VUndefined)
              (this # take (max (fnLength (fnAt st method)) 1 - 1)
                        (args @ undefineds (max (fnLength (fnAt st method)) 1 - 1))))))
   \<and> (method < length (fobjs st) \<and> \<not> hasFlag type INSTANCE \<longrightarrow>
      fnInstance (fnAt (snd (defineMethod sugarNamespace type False flags (methodName, method) st)) method)
        = fnInstance (fnAt st method))"
proof (intro conjI impI)
  assume a: "method < length (fobjs st) \<and> hasFlag type INSTANCE \<and> instanceSlot (fnAt st method) = NotFn False
      \<and> fnLength (fnAt st method) \<le> 5"
  then have m: "method < length (fobjs st)" and i: "hasFlag type INSTANCE"
    and s: "instanceSlot (fnAt st method) = NotFn False" and l: "fnLength (fnAt st method) \<le> 5"
    by simp_all
  show "fnInstance (fnAt (snd (defineMethod sugarNamespace type False flags (methodName, method) st)) method)
        = Some (Some (length (fobjs st)))"
    by (rule instance_variant(1)[OF m i s l])
  show c: "fnCode (fnAt (snd (defineMethod sugarNamespace type False flags (methodName, method) st)) (length (fobjs st)))
        = InstanceFixed (fnCode (fnAt st method)) (max (fnLength (fnAt st method)) 1 - 1)"
    by (rule instance_variant(2)[OF m i s l])
  assume "fnCode (fnAt st method) = Host i"
  then show "callFn (Suc (Suc n)) env anyState
           (fnCode (fnAt (snd (defineMethod sugarNamespace type False flags (methodName, method) st)) (length (fobjs st))))
           this args
         = Some (envCall env i (Plain VUndefined)
              (this # take (max (fnLength (fnAt st method)) 1 - 1)
                        (args @ undefineds (max (fnLength (fnAt st method)) 1 - 1))))"
    unfolding c by simp
next
  assume "method < length (fobjs st) \<and> \<not> hasFlag type INSTANCE"
  then show "fnInstance (fnAt (snd (defineMethod sugarNamespace type False flags (methodName, method) st)) method)
        = fnInstance (fnAt st method)"
    using no_instance_variant[of "method" st type sugarNamespace flags methodName] by blast
qed

text \<open>The witness: the function at address 4, of two parameters, defined as the
  instance method \<open>foo\<close> of the namespace \<open>Array\<close> and as a static method.\<close>

theorem instance_variant_forwards_by_length_witness:
  "4 < length (fobjs exampleCore) \<and> hasFlag INSTANCE INSTANCE
   \<and> instanceSlot (fnAt exampleCore 4) = NotFn False \<and> fnLength (fnAt exampleCore 4) \<le> 5
   \<and> fnCode (fnAt exampleCore 4) = Host 4 \<and> length (fobjs exampleCore) = 11
   \<and> fnInstance (fnAt (snd (defineMethod 4 INSTANCE False None (''foo'', 4) exampleCore)) 4) = Some (Some 11)
   \<and> callFn (Suc (Suc 0)) exampleEnv exampleCore
        (fnCode (fnAt (snd (defineMethod 4 INSTANCE False None (''foo'', 4) exampleCore)) 11))
        (Plain (VStr ''abc'')) [Plain (VNum (NInt 1)), Plain (VNum (NInt 2)), Plain (VNum (NInt 3))]
      = Some (envCall exampleEnv 4 (Plain VUndefined) [Plain (VStr ''abc''), Plain (VNum (NInt 1))])
   \<and> \<not> hasFlag STATIC INSTANCE
   \<and> fnInstance (fnAt (snd (defineMethod 4 STATIC False None (''foo'', 4) exampleCore)) 4) = None"
proof -
  have len: "length (fobjs exampleCore) = 11" by code_simp
  have m: "4 < length (fobjs exampleCore)" by (simp add: len)
  have i: "hasFlag INSTANCE INSTANCE" by code_simp
  have s: "instanceSlot (fnAt exampleCore 4) = NotFn False" by code_simp
  have l: "fnLength (fnAt exampleCore 4) \<le> 5" by code_simp
  have l2: "fnLength (fnAt exampleCore 4) = 2" by code_simp
  have c: "fnCode (fnAt exampleCore 4) = Host 4" by code_simp
  have n: "\<not> hasFlag STATIC INSTANCE" by code_simp
  have z: "fnInstance (fnAt exampleCore 4) = None" by code_simp
  have u: "undefineds (Suc 0) = [Plain VUndefined]" by (simp add: undefineds_def)
  from instance_variant_forwards_by_length[of 4 exampleCore INSTANCE 4 None "''foo''" 4 0 exampleEnv exampleCore
      "Plain (VStr ''abc'')" "[Plain (VNum (NInt 1)), Plain (VNum (NInt 2)), Plain (VNum (NInt 3))]"] m i s l c
  have a: "fnInstance (fnAt (snd (defineMethod 4 INSTANCE False None (''foo'', 4) exampleCore)) 4)
        = Some (Some (length (fobjs exampleCore)))"
    and b: "callFn (Suc (Suc 0)) exampleEnv exampleCore
        (fnCode (fnAt (snd (defineMethod 4 INSTANCE False None (''foo'', 4) exampleCore)) (length (fobjs exampleCore))))
        (Plain (VStr ''abc'')) [Plain (VNum (NInt 1)), Plain (VNum (NInt 2)), Plain (VNum (NInt 3))]
      = Some (envCall exampleEnv 4 (Plain VUndefined)
              (Plain (VStr ''abc'') # take (max (fnLength (fnAt exampleCore 4)) 1 - 1)
                 ([Plain (VNum (NInt 1)), Plain (VNum (NInt 2)), Plain (VNum (NInt 3))]
                  @ undefineds (max (fnLength (fnAt exampleCore 4)) 1 - 1))))"
    by blast+
  from instance_variant_forwards_by_length[of 4 exampleCore STATIC 4 None "''foo''" 4 0 exampleEnv exampleCore
      "Plain (VStr ''abc'')" "[]"] m n
  have d: "fnInstance (fnAt (snd (defineMethod 4 STATIC False None (''foo'', 4) exampleCore)) 4)
        = fnInstance (fnAt exampleCore 4)"
    by blast
  from b have b': "callFn (Suc (Suc 0)) exampleEnv exampleCore
        (fnCode (fnAt (snd (defineMethod 4 INSTANCE False None (''foo'', 4) exampleCore)) 11))
        (Plain (VStr ''abc'')) [Plain (VNum (NInt 1)), Plain (VNum (NInt 2)), Plain (VNum (NInt 3))]
      = Some (envCall exampleEnv 4 (Plain VUndefined) [Plain (VStr ''abc''), Plain (VNum (NInt 1))])"
    unfolding len l2 by simp
  from a have a': "fnInstance (fnAt (snd (defineMethod 4 INSTANCE False None (''foo'', 4) exampleCore)) 4) = Some (Some 11)"
    unfolding len .
  from d z have d': "fnInstance (fnAt (snd (defineMethod 4 STATIC False None (''foo'', 4) exampleCore)) 4) = None"
    by simp
  show ?thesis
    using m i s l c len a' b' n d' by blast
qed

text \<open>
  Claim C6, as stated, fails. (1) A method defined with \<open>defineStatic\<close> gets no
  instance variant. (2) The variant of an implementation of two parameters forwards one
  argument of the call: the second and the third are dropped, not only the fifth and
  later ones. (3) For an implementation of six parameters \<open>wrapInstanceMethodFixed\<close>
  returns \<open>undefined\<close>: the \<open>instance\<close> property holds \<open>undefined\<close>, no chainable method
  is made, and \<open>extend\<close> sets the property of the native prototype to \<open>undefined\<close>.
\<close>

theorem instance_variant_counterexample:
  "fnInstance (fnAt (snd (defineStatic 4 [(''foo'', 4)] None exampleCore)) 4) = None
   \<and> fnLength (fnAt exampleCore 4) = 2
   \<and> (case snd (defineInstance 4 [(''foo'', 4)] None exampleCore) of st' \<Rightarrow>
        fnInstance (fnAt st' 4) = Some (Some 11)
      \<and> callFn 2 exampleEnv st' (fnCode (fnAt st' 11)) (Plain (VStr ''abc''))
           [Plain (VNum (NInt 1)), Plain (VNum (NInt 2)), Plain (VNum (NInt 3))]
         = Some (envCall exampleEnv 4 (Plain VUndefined) [Plain (VStr ''abc''), Plain (VNum (NInt 1))]))
   \<and> fnLength (fnAt exampleCore 5) = 6
   \<and> (case snd (defineInstance 4 [(''six'', 5)] None exampleCore) of st' \<Rightarrow>
        fnInstance (fnAt st' 5) = Some None
      \<and> map_of (chProto (chainableAt st' 4)) ''six'' = None
      \<and> map_of (membersOf (snd (extend 4 noOptions st')) ''Array'') ''six'' = Some (NotFn False))"
  by code_simp


end
